theory Spec2Isabelle
  imports Main
begin

section \<open>JavaScript values\<close>

text \<open>
  The engine (\<^verbatim>\<open>src/lib/execution/engine.ts\<close>) handles node results of type
  \<^verbatim>\<open>unknown\<close>. The values are modelled by a datatype with one constructor per
  JavaScript kind the engine distinguishes. An object is a map from property names
  to values (insertion order is never observed by the engine). Numbers are integers
  here: the engine does no arithmetic on results and only tests them for truthiness.
  Functions, symbols and big integers are left out; like strings, they are truthy
  values that are not objects.
\<close>

datatype jsval =
    JUndefined
  | JNull
  | JBool bool
  | JNum int
  | JStr string
  | JArr "jsval list"
  | JObj "string \<Rightarrow> jsval option"

type_synonym props = "string \<Rightarrow> jsval option"

text \<open>JavaScript truthiness, as used by \<^verbatim>\<open>result && ...\<close>.\<close>

fun truthy :: "jsval \<Rightarrow> bool" where
  "truthy JUndefined = False"
| "truthy JNull = False"
| "truthy (JBool b) = b"
| "truthy (JNum n) = (n \<noteq> 0)"
| "truthy (JStr s) = (s \<noteq> [])"
| "truthy (JArr xs) = True"
| "truthy (JObj f) = True"

fun typeof :: "jsval \<Rightarrow> string" where
  "typeof JUndefined = ''undefined''"
| "typeof JNull = ''object''"
| "typeof (JBool b) = ''boolean''"
| "typeof (JNum n) = ''number''"
| "typeof (JStr s) = ''string''"
| "typeof (JArr xs) = ''object''"
| "typeof (JObj f) = ''object''"

fun isArray :: "jsval \<Rightarrow> bool" where
  "isArray (JArr xs) = True"
| "isArray v = False"

text \<open>
  The test \<^verbatim>\<open>result && typeof result === 'object' && !Array.isArray(result)\<close>
  of \<^verbatim>\<open>executeNode\<close> (lines 152 and 165).
\<close>

definition isObjectLike :: "jsval \<Rightarrow> bool" where
  "isObjectLike result = (truthy result \<and> typeof result = ''object'' \<and> \<not> isArray result)"

text \<open>
  The cast \<^verbatim>\<open>result as Record<string, unknown>\<close>; it is applied only under
  \<open>isObjectLike\<close>, where the value is an object.
\<close>

fun asRecord :: "jsval \<Rightarrow> props" where
  "asRecord (JObj f) = f"
| "asRecord v = Map.empty"

text \<open>Object spread \<^verbatim>\<open>{ ...a, ...b }\<close>: the properties of \<open>b\<close> win.\<close>

definition spread :: "props \<Rightarrow> props \<Rightarrow> props" where
  "spread a b = a ++ b"

section \<open>Workflow data (\<^verbatim>\<open>src/lib/types.ts\<close>)\<close>

record WorkflowNode =
  node_id :: string
  node_type :: string
  node_data :: props

record WorkflowEdge =
  source :: string
  target :: string

record Workflow =
  workflow_id :: string
  workflow_name :: string
  nodes :: "WorkflowNode list"
  edges :: "WorkflowEdge list"
  starterId :: string

datatype ExecutionStatus = Idle | Running | Success | Error | Cancelled

datatype LogLevel = Info | Warn | ErrorLevel

text \<open>
  A log entry. Its \<^verbatim>\<open>id\<close> (built from \<^verbatim>\<open>Date.now()\<close> and
  \<^verbatim>\<open>Math.random()\<close>) and its \<^verbatim>\<open>timestamp\<close> are not modelled.
\<close>

record ExecutionLog =
  log_nodeId :: "string option"
  message :: string
  level :: LogLevel

record NodeExecution =
  ne_nodeId :: string
  ne_status :: ExecutionStatus
  ne_startTime :: "nat option"
  ne_endTime :: "nat option"
  ne_duration :: "int option"
  ne_outputs :: "props option"
  ne_error :: "string option"

record WorkflowExecution =
  workflowId :: string
  status :: ExecutionStatus
  startTime :: nat
  endTime :: "nat option"
  duration :: "int option"
  logs :: "ExecutionLog list"
  nodeExecutions :: "string \<Rightarrow> NodeExecution option"

section \<open>Node behaviours\<close>

text \<open>
  A block's \<^verbatim>\<open>run(ctx)\<close> is arbitrary asynchronous code of the block registry.
  It is modelled by what the engine can observe of one invocation: the calls it
  makes on its context (\<^verbatim>\<open>ctx.log\<close>, \<^verbatim>\<open>ctx.setNodeOutput\<close>) in order,
  whether \<^verbatim>\<open>engine.stop()\<close> is called by the owner of the engine while the
  engine awaits it, and how the returned promise settles. What the behaviour reads
  (its inputs, the environment, the outputs of earlier nodes through
  \<^verbatim>\<open>getNodeOutput\<close>, the abort signal) is the argument of the function; the
  answers of the network are part of the function itself. The time that an
  invocation takes shows in the readings of the clock (see \<open>run_state\<close>).
\<close>

type_synonym registry = "string \<Rightarrow> props option"

record RunContext =
  ctx_workflowId :: string
  ctx_nodeId :: string
  ctx_inputs :: props
  ctx_env :: "string \<Rightarrow> string option"
  ctx_nodeOutputs :: registry
  ctx_aborted :: bool

datatype ctx_call = Log string | SetNodeOutput string jsval

text \<open>
  A thrown value: an \<^verbatim>\<open>Error\<close> with its message, or anything else
  (\<^verbatim>\<open>error instanceof Error ? error.message : 'Unknown error'\<close>).
\<close>

datatype thrown = JsError string | NonError

fun errorMessage :: "thrown \<Rightarrow> string" where
  "errorMessage (JsError m) = m"
| "errorMessage NonError = ''Unknown error''"

datatype settled = Returns jsval | Throws thrown | NeverSettles

record outcome =
  calls :: "ctx_call list"
  stopRequested :: bool
  settles :: settled

type_synonym behaviour = "RunContext \<Rightarrow> outcome"

record BlockConfig =
  run :: "behaviour option"

section \<open>Engine state\<close>

text \<open>
  The state of one call of \<^verbatim>\<open>ExecutionEngine.executeWorkflow\<close>: the
  \<^verbatim>\<open>execution\<close> record under construction, the local \<^verbatim>\<open>nodeOutputs\<close>
  registry, the state of the engine's \<^verbatim>\<open>abortController\<close> signal, the clock,
  the calls made to the \<^verbatim>\<open>onNodeUpdate\<close> observer, each with a snapshot of the
  node execution at the time of the call, and the calls of \<^verbatim>\<open>blockConfig.run\<close>
  made so far, each with the node identifier and the context that was passed
  (a history that nothing reads).

  The clock is the sequence of the values that \<^verbatim>\<open>new Date()\<close> returns where the
  engine keeps them (the start and end times of the run and of the nodes, in
  milliseconds): \<open>clock st n\<close> is the reading number \<open>n\<close>, counted from 0, and
  \<open>reads st\<close> is the number of readings already made. Nothing is assumed of the
  sequence, so any time can pass between two readings. The readings that only go
  into the identifiers and time stamps of the log entries are not counted.

  In this section and the following ones the observers (\<^verbatim>\<open>onLog\<close>,
  \<^verbatim>\<open>onNodeUpdate\<close>) are taken to return normally; \<^verbatim>\<open>onLog\<close> receives exactly
  the entries of \<open>logs\<close> and is not recorded apart. Observers that throw are the
  subject of the section on the engine with observers below.
\<close>

record run_state =
  execution :: WorkflowExecution
  nodeOutputs :: registry
  aborted :: bool
  clock :: "nat \<Rightarrow> nat"
  reads :: nat
  notified :: "(string \<times> NodeExecution) list"
  invoked :: "(string \<times> RunContext) list"

text \<open>
  \<^verbatim>\<open>new Date()\<close>: the value is the next reading, \<open>now st\<close>, and \<open>tick\<close> moves the
  state on to the reading after it.
\<close>

definition now :: "run_state \<Rightarrow> nat" where
  "now st = clock st (reads st)"

definition tick :: "run_state \<Rightarrow> run_state" where
  "tick st = st\<lparr>reads := Suc (reads st)\<rparr>"

text \<open>
  \<^verbatim>\<open>log\<close> (lines 241 to 252) with an observer that returns: the entry is pushed
  (\<^verbatim>\<open>execution.logs.push(log)\<close>).
\<close>

definition log :: "run_state \<Rightarrow> LogLevel \<Rightarrow> string \<Rightarrow> string option \<Rightarrow> run_state" where
  "log st lvl msg nid =
     st\<lparr>execution := (execution st)\<lparr>logs := logs (execution st) @
        [\<lparr>log_nodeId = nid, message = msg, level = lvl\<rparr>]\<rparr>\<rparr>"

definition setStatus :: "run_state \<Rightarrow> ExecutionStatus \<Rightarrow> run_state" where
  "setStatus st s = st\<lparr>execution := (execution st)\<lparr>status := s\<rparr>\<rparr>"

text \<open>\<^verbatim>\<open>execution.nodeExecutions[node.id] = nodeExecution\<close>, and the later
  mutations of that shared object.\<close>

definition putNodeExecution :: "run_state \<Rightarrow> NodeExecution \<Rightarrow> run_state" where
  "putNodeExecution st ne =
     st\<lparr>execution := (execution st)\<lparr>nodeExecutions :=
        (nodeExecutions (execution st))(ne_nodeId ne \<mapsto> ne)\<rparr>\<rparr>"

text \<open>\<^verbatim>\<open>this.onNodeUpdate?.(node.id, nodeExecution)\<close>.\<close>

definition onNodeUpdate :: "run_state \<Rightarrow> string \<Rightarrow> NodeExecution \<Rightarrow> run_state" where
  "onNodeUpdate st nid ne = st\<lparr>notified := notified st @ [(nid, ne)]\<rparr>"

section \<open>The run context accessors\<close>

text \<open>
  \<^verbatim>\<open>getNodeOutput(nodeId, key?)\<close> (lines 129 to 136). The key is tested for
  truthiness, so an empty key reads the whole slot. The result is a value: a
  behaviour that would write into the object it is handed, rather than call
  \<^verbatim>\<open>setNodeOutput\<close>, is outside the model. So are the names that every
  JavaScript object inherits (such as \<^verbatim>\<open>constructor\<close>): a slot is modelled by
  the properties it owns.
\<close>

definition getNodeOutput :: "registry \<Rightarrow> string \<Rightarrow> string option \<Rightarrow> jsval" where
  "getNodeOutput outs nodeId key =
     (if nodeId = ''*'' then JObj (\<lambda>n. map_option JObj (outs n))
      else (case outs nodeId of
              None \<Rightarrow> JUndefined
            | Some slot \<Rightarrow>
                (case key of
                   None \<Rightarrow> JObj slot
                 | Some k \<Rightarrow>
                     if k = [] then JObj slot
                     else (case slot k of None \<Rightarrow> JUndefined | Some v \<Rightarrow> v))))"

text \<open>\<^verbatim>\<open>nodeOutputs[node.id] || {}\<close>: the slot of a node, empty when there is none.\<close>

definition slotOf :: "registry \<Rightarrow> string \<Rightarrow> props" where
  "slotOf outs nid = (case outs nid of None \<Rightarrow> Map.empty | Some slot \<Rightarrow> slot)"

text \<open>
  \<^verbatim>\<open>setNodeOutput(key, value)\<close> of the node \<open>nid\<close> (lines 137 to 142): the slot
  is created when it is missing, then the key is written. The assignment
  \<^verbatim>\<open>nodeOutputs[node.id][key] = value\<close> under the key \<^verbatim>\<open>__proto__\<close> goes to the
  prototype setter of the slot and creates no property; what it does to the
  prototype is not modelled.
\<close>

definition setNodeOutput :: "string \<Rightarrow> string \<Rightarrow> jsval \<Rightarrow> registry \<Rightarrow> registry" where
  "setNodeOutput nid key v outs =
     outs(nid \<mapsto> (if key = ''__proto__'' then slotOf outs nid else (slotOf outs nid)(key \<mapsto> v)))"

fun applyCall :: "string \<Rightarrow> ctx_call \<Rightarrow> run_state \<Rightarrow> run_state" where
  "applyCall nid (Log m) st = log st Info m (Some nid)"
| "applyCall nid (SetNodeOutput k v) st = st\<lparr>nodeOutputs := setNodeOutput nid k v (nodeOutputs st)\<rparr>"

text \<open>The state when the awaited behaviour has settled.\<close>

definition awaited :: "outcome \<Rightarrow> run_state \<Rightarrow> run_state" where
  "awaited out st = st\<lparr>aborted := (aborted st \<or> stopRequested out)\<rparr>"

text \<open>The call \<^verbatim>\<open>blockConfig.run(context)\<close> of the node \<open>nid\<close> is added to the history.\<close>

definition noteInvocation :: "run_state \<Rightarrow> string \<Rightarrow> RunContext \<Rightarrow> run_state" where
  "noteInvocation st nid context = st\<lparr>invoked := invoked st @ [(nid, context)]\<rparr>"

section \<open>\<^verbatim>\<open>executeNode\<close>\<close>

datatype node_end = Completed | Threw thrown | Hung

text \<open>UTF-8 bytes of the symbols that open the log messages.\<close>

definition sym_rocket :: string where "sym_rocket = [CHR 0xF0, CHR 0x9F, CHR 0x9A, CHR 0x80]"
definition sym_cross :: string where "sym_cross = [CHR 0xE2, CHR 0x9D, CHR 0x8C]"
definition sym_check :: string where "sym_check = [CHR 0xE2, CHR 0x9C, CHR 0x85]"
definition sym_boom :: string where "sym_boom = [CHR 0xF0, CHR 0x9F, CHR 0x92, CHR 0xA5]"
definition sym_bolt :: string where "sym_bolt = [CHR 0xE2, CHR 0x9A, CHR 0xA1]"
definition sym_siren :: string where "sym_siren = [CHR 0xF0, CHR 0x9F, CHR 0x9A, CHR 0xA8]"

text \<open>
  \<^verbatim>\<open>new Date(endTime).getTime() - new Date(startTime).getTime()\<close>, where the
  start time is an optional field.
\<close>

definition elapsedSince :: "nat option \<Rightarrow> nat \<Rightarrow> int option" where
  "elapsedSince start end = (case start of None \<Rightarrow> None | Some s \<Rightarrow> Some (int end - int s))"

text \<open>The \<^verbatim>\<open>catch\<close> block of \<^verbatim>\<open>executeNode\<close> (lines 177 to 185).\<close>

definition nodeFailed :: "NodeExecution \<Rightarrow> thrown \<Rightarrow> run_state \<Rightarrow> node_end \<times> run_state" where
  "nodeFailed nodeExecution err st =
     (let ne = nodeExecution\<lparr>ne_status := Error,
                 ne_error := Some (errorMessage err),
                 ne_endTime := Some (now st),
                 ne_duration := elapsedSince (ne_startTime nodeExecution) (now st)\<rparr>;
          st1 = putNodeExecution (tick st) ne;
          st2 = log st1 ErrorLevel (sym_siren @ '' Node failed: '' @ errorMessage err) (Some (ne_nodeId ne))
      in (Threw err, st2))"

text \<open>The success path of \<^verbatim>\<open>executeNode\<close> (lines 149 to 175 and 187).\<close>

definition nodeSucceeded :: "WorkflowNode \<Rightarrow> NodeExecution \<Rightarrow> jsval \<Rightarrow> run_state \<Rightarrow> node_end \<times> run_state" where
  "nodeSucceeded node nodeExecution result st =
     (let returnOutputs = (if isObjectLike result then asRecord result
                           else [''value'' \<mapsto> result]);
          ne = nodeExecution\<lparr>ne_status := Success,
                 ne_outputs := Some (spread (slotOf (nodeOutputs st) (node_id node)) returnOutputs),
                 ne_endTime := Some (now st),
                 ne_duration := elapsedSince (ne_startTime nodeExecution) (now st)\<rparr>;
          st1 = putNodeExecution (tick st) ne;
          st2 = (if isObjectLike result
                 then st1\<lparr>nodeOutputs := (nodeOutputs st1)(node_id node \<mapsto>
                        spread (slotOf (nodeOutputs st1) (node_id node)) (asRecord result))\<rparr>
                 else st1);
          st3 = (if node_type node \<noteq> ''starter''
                 then log st2 Info (sym_check @ '' '' @ node_type node @ '' completed'') (Some (node_id node))
                 else st2)
      in (Completed, onNodeUpdate st3 (node_id node) ne))"

text \<open>The record a node execution starts with (lines 101 to 105).\<close>

definition newNodeExecution :: "WorkflowNode \<Rightarrow> run_state \<Rightarrow> NodeExecution" where
  "newNodeExecution node st =
     \<lparr>ne_nodeId = node_id node, ne_status = Running, ne_startTime = Some (now st),
      ne_endTime = None, ne_duration = None, ne_outputs = None, ne_error = None\<rparr>"

text \<open>
  The run context (lines 122 to 144): \<open>ctx_nodeOutputs\<close> is what
  \<^verbatim>\<open>getNodeOutput\<close> reads, \<open>ctx_aborted\<close> the state of \<^verbatim>\<open>abortSignal\<close>.
\<close>

definition makeContext :: "Workflow \<Rightarrow> WorkflowNode \<Rightarrow> (string \<Rightarrow> string option) \<Rightarrow> run_state \<Rightarrow> RunContext" where
  "makeContext workflow node env st =
     \<lparr>ctx_workflowId = workflow_id workflow, ctx_nodeId = node_id node,
      ctx_inputs = node_data node, ctx_env = env,
      ctx_nodeOutputs = nodeOutputs st, ctx_aborted = aborted st\<rparr>"

text \<open>
  \<^verbatim>\<open>getBlockConfig(node.type)\<close> followed by the test
  \<^verbatim>\<open>!blockConfig || !blockConfig.run\<close>; the block registry is a parameter.
\<close>

definition runOf :: "(string \<Rightarrow> BlockConfig option) \<Rightarrow> string \<Rightarrow> behaviour option" where
  "runOf getBlockConfig t = (case getBlockConfig t of None \<Rightarrow> None | Some blockConfig \<Rightarrow> run blockConfig)"

text \<open>Lines 107 to 114: the record is stored, the observer is told, the start is logged.\<close>

definition nodeStarted :: "WorkflowNode \<Rightarrow> run_state \<Rightarrow> run_state" where
  "nodeStarted node st =
     (let nodeExecution = newNodeExecution node st;
          st1 = onNodeUpdate (putNodeExecution (tick st) nodeExecution) (node_id node) nodeExecution
      in if node_type node \<noteq> ''starter''
         then log st1 Info (sym_bolt @ '' '' @ node_type node @ '': '' @ node_id node) (Some (node_id node))
         else st1)"

definition executeNode ::
  "(string \<Rightarrow> BlockConfig option) \<Rightarrow> Workflow \<Rightarrow> WorkflowNode \<Rightarrow> (string \<Rightarrow> string option)
     \<Rightarrow> run_state \<Rightarrow> node_end \<times> run_state" where
  "executeNode getBlockConfig workflow node env st =
     (let nodeExecution = newNodeExecution node st;
          st2 = nodeStarted node st
      in case runOf getBlockConfig (node_type node) of
           None \<Rightarrow>
             nodeFailed nodeExecution
               (JsError (''Block type '' @ node_type node @ '' not found or not executable'')) st2
         | Some runBlock \<Rightarrow>
             (let context = makeContext workflow node env st2;
                  out = runBlock context;
                  st3 = awaited out (fold (applyCall (node_id node)) (calls out)
                                       (noteInvocation st2 (node_id node) context))
              in case settles out of
                   NeverSettles \<Rightarrow> (Hung, st3)
                 | Throws err \<Rightarrow> nodeFailed nodeExecution err st3
                 | Returns result \<Rightarrow> nodeSucceeded node nodeExecution result st3))"

section \<open>\<^verbatim>\<open>validateWorkflow\<close> and \<^verbatim>\<open>getConnectedNodes\<close>\<close>

definition validateWorkflow :: "Workflow \<Rightarrow> thrown + unit" where
  "validateWorkflow workflow =
     (if nodes workflow = [] then Inl (JsError ''Workflow has no nodes'')
      else (case find (\<lambda>node. node_id node = starterId workflow) (nodes workflow) of
              None \<Rightarrow> Inl (JsError ''Start node not found'')
            | Some startNode \<Rightarrow> Inr ()))"

definition getConnectedNodes :: "Workflow \<Rightarrow> string \<Rightarrow> WorkflowNode list" where
  "getConnectedNodes workflow fromNodeId =
     (let connectedNodeIds = map target (filter (\<lambda>edge. source edge = fromNodeId) (edges workflow))
      in filter (\<lambda>node. node_id node \<in> set connectedNodeIds) (nodes workflow))"

section \<open>\<^verbatim>\<open>executeWorkflow\<close>\<close>

text \<open>
  The identifiers the loop can still visit; their number is the measure that shows
  that the loop ends.
\<close>

definition unvisited :: "Workflow \<Rightarrow> string list \<Rightarrow> string set \<Rightarrow> string set" where
  "unvisited w queue visited = (node_id ` set (nodes w) \<union> set queue) - visited"

text \<open>
  The \<^verbatim>\<open>while (queue.length > 0)\<close> loop (lines 48 to 75), on the queue, the
  \<^verbatim>\<open>visited\<close> set and the state. It ends normally, with the error a node threw
  (after the inner \<^verbatim>\<open>catch\<close>, lines 63 to 69), or not at all when an awaited
  behaviour never settles (\<open>Hung\<close>).
\<close>

function runLoop ::
  "(string \<Rightarrow> BlockConfig option) \<Rightarrow> Workflow \<Rightarrow> (string \<Rightarrow> string option)
     \<Rightarrow> string list \<Rightarrow> string set \<Rightarrow> run_state \<Rightarrow> node_end \<times> run_state" where
  "runLoop getBlockConfig workflow env [] visited st = (Completed, st)"
| "runLoop getBlockConfig workflow env (nodeId # rest) visited st =
     (if aborted st then (Completed, setStatus st Cancelled)
      else if nodeId \<in> visited then runLoop getBlockConfig workflow env rest visited st
      else (case find (\<lambda>n. node_id n = nodeId) (nodes workflow) of
              None \<Rightarrow> runLoop getBlockConfig workflow env rest (insert nodeId visited) st
            | Some node \<Rightarrow>
                (case executeNode getBlockConfig workflow node env st of
                   (Hung, st') \<Rightarrow> (Hung, st')
                 | (Threw err, st') \<Rightarrow>
                     (Threw err,
                      log (setStatus st' Error) ErrorLevel
                        (sym_cross @ '' Node '' @ [CHR 0x22] @ node_id node @ [CHR 0x22]
                           @ '' failed: '' @ errorMessage err) None)
                 | (Completed, st') \<Rightarrow>
                     runLoop getBlockConfig workflow env
                       (rest @ filter (\<lambda>i. i \<notin> insert nodeId visited)
                                 (map node_id (getConnectedNodes workflow nodeId)))
                       (insert nodeId visited) st')))"
  by pat_completeness auto

text \<open>
  The loop ends on every graph, cyclic or not: each iteration either drops an entry
  of the queue that is already visited, or visits an identifier that was not; the
  identifiers that can still be visited are those of the nodes and of the queue.
\<close>

termination runLoop
proof -
  have skip: "card (unvisited w rest visited) \<le> card (unvisited w (x # rest) visited)"
    for w rest visited x
    by (rule card_mono) (auto simp: unvisited_def)
  have visit: "card (unvisited w (rest @ new) (insert x visited)) < card (unvisited w (x # rest) visited)"
    if "x \<notin> visited" "set new \<subseteq> node_id ` set (nodes w)" for w rest new visited x
  proof -
    have "unvisited w (rest @ new) (insert x visited) \<subset> unvisited w (x # rest) visited"
      using that by (auto simp: unvisited_def)
    then show ?thesis
      by (intro psubset_card_mono) (simp_all add: unvisited_def)
  qed
  have conn: "set (filter (\<lambda>i. i \<notin> insert x visited) (map node_id (getConnectedNodes w x)))
                \<subseteq> node_id ` set (nodes w)" for w x visited
    by (auto simp: getConnectedNodes_def)
  show ?thesis
  proof (relation "inv_image (less_than <*lex*> less_than)
     (\<lambda>(g, w, e, queue, visited, st). (card (unvisited w queue visited), length queue))", goal_cases)
    case 1
    show ?case by (intro wf_inv_image wf_lex_prod wf_less_than)
  next
    case 2
    then show ?case using skip by (auto simp: le_less)
  next
    case 3
    then show ?case using visit[where new = "[]"] by simp
  next
    case 4
    then show ?case using visit[OF _ conn] by simp
  qed
qed

declare runLoop.simps [simp del]

text \<open>
  The state of the promise that \<^verbatim>\<open>executeWorkflow\<close> returns.
\<close>

datatype 'a promise = Resolved 'a | Rejected thrown | Pending

text \<open>The body of the outer \<^verbatim>\<open>try\<close> (lines 31 to 80).\<close>

definition tryBody ::
  "(string \<Rightarrow> BlockConfig option) \<Rightarrow> Workflow \<Rightarrow> (string \<Rightarrow> string option)
     \<Rightarrow> run_state \<Rightarrow> node_end \<times> run_state" where
  "tryBody getBlockConfig workflow env st =
     (case validateWorkflow workflow of
        Inl err \<Rightarrow> (Threw err, st)
      | Inr ok \<Rightarrow>
          (case find (\<lambda>node. node_id node = starterId workflow) (nodes workflow) of
             None \<Rightarrow> (Threw (JsError ''Start node not found''), st)
           | Some startNode \<Rightarrow>
               (case runLoop getBlockConfig workflow env [node_id startNode] {} st of
                  (Completed, st') \<Rightarrow>
                    (Completed,
                     if status (execution st') \<noteq> Cancelled
                     then log (setStatus st' Success) Info (sym_check @ '' Workflow completed'') None
                     else st')
                | (Threw err, st') \<Rightarrow> (Threw err, st')
                | (Hung, st') \<Rightarrow> (Hung, st'))))"

text \<open>
  Lines 88 and 89: the end time, a new reading of the clock, and the duration are
  set on every path.
\<close>

definition finish :: "run_state \<Rightarrow> run_state" where
  "finish st =
     st\<lparr>execution := (execution st)\<lparr>endTime := Some (now st),
          duration := Some (int (now st) - int (startTime (execution st)))\<rparr>\<rparr>"

text \<open>
  The state when the execution record has been created (lines 18 to 27, and line 36
  for the registry), with the clock \<open>clk\<close>: the start time is its first reading.
  The execution \<^verbatim>\<open>id\<close> (\<^verbatim>\<open>exec-\<close> followed by the time) is not modelled.
\<close>

definition newRun :: "Workflow \<Rightarrow> (nat \<Rightarrow> nat) \<Rightarrow> run_state" where
  "newRun workflow clk =
     \<lparr>execution = \<lparr>workflowId = workflow_id workflow, status = Running, startTime = clk 0,
                    endTime = None, duration = None, logs = [], nodeExecutions = Map.empty\<rparr>,
      nodeOutputs = Map.empty, aborted = False, clock = clk, reads = 1, notified = [],
      invoked = []\<rparr>"

text \<open>The state when the start of the run has been logged (line 29).\<close>

definition initialState :: "Workflow \<Rightarrow> (nat \<Rightarrow> nat) \<Rightarrow> run_state" where
  "initialState workflow clk =
     log (newRun workflow clk) Info (sym_rocket @ '' Starting workflow: '' @ workflow_name workflow) None"

text \<open>
  \<^verbatim>\<open>ExecutionEngine.executeWorkflow\<close> with the whole final state, so that the
  registry and the observer's notifications can be inspected; the outer
  \<^verbatim>\<open>catch\<close> (lines 82 to 86) handles whatever the body threw.
\<close>

definition runWorkflow ::
  "(string \<Rightarrow> BlockConfig option) \<Rightarrow> Workflow \<Rightarrow> (string \<Rightarrow> string option)
     \<Rightarrow> (nat \<Rightarrow> nat) \<Rightarrow> run_state promise" where
  "runWorkflow getBlockConfig workflow env clk =
     (case tryBody getBlockConfig workflow env (initialState workflow clk) of
        (Completed, st) \<Rightarrow> Resolved (finish st)
      | (Threw err, st) \<Rightarrow>
          Resolved (finish (log (setStatus st Error) ErrorLevel
                              (sym_boom @ '' Workflow failed: '' @ errorMessage err) None))
      | (Hung, st) \<Rightarrow> Pending)"

text \<open>The promise of the record that \<^verbatim>\<open>executeWorkflow\<close> returns (line 91).\<close>

definition executeWorkflow ::
  "(string \<Rightarrow> BlockConfig option) \<Rightarrow> Workflow \<Rightarrow> (string \<Rightarrow> string option)
     \<Rightarrow> (nat \<Rightarrow> nat) \<Rightarrow> WorkflowExecution promise" where
  "executeWorkflow getBlockConfig workflow env clk =
     map_promise execution (runWorkflow getBlockConfig workflow env clk)"

text \<open>
  \<^verbatim>\<open>startWorkflow\<close> (lines 273 to 282) creates an engine and returns it with the
  promise of \<^verbatim>\<open>executeWorkflow\<close>; calls of \<^verbatim>\<open>engine.stop()\<close> are the
  \<open>stopRequested\<close> flags of the outcomes.
\<close>

definition startWorkflow ::
  "(string \<Rightarrow> BlockConfig option) \<Rightarrow> Workflow \<Rightarrow> (string \<Rightarrow> string option)
     \<Rightarrow> (nat \<Rightarrow> nat) \<Rightarrow> WorkflowExecution promise" where
  "startWorkflow getBlockConfig workflow env clk = executeWorkflow getBlockConfig workflow env clk"

section \<open>The engine with observers that may throw\<close>

text \<open>
  The observers are optional arguments of the constructor (lines 9 to 15) and are
  called as \<^verbatim>\<open>this.onLog?.(log)\<close> and \<^verbatim>\<open>this.onNodeUpdate?.(node.id, nodeExecution)\<close>.
  An observer is modelled by whether it returns (\<open>None\<close>) or throws, for each
  argument; one that calls \<^verbatim>\<open>engine.stop()\<close> or writes into the object it is
  handed is outside the model. The functions of this section follow the same lines
  of the source as those above and add the paths that a throwing observer opens;
  they are named after them, with the suffix \<open>_obs\<close>.
\<close>

record observers =
  obs_onLog :: "(ExecutionLog \<Rightarrow> thrown option) option"
  obs_onNodeUpdate :: "(string \<Rightarrow> NodeExecution \<Rightarrow> thrown option) option"

text \<open>
  \<^verbatim>\<open>log\<close> (lines 241 to 252): the entry is pushed, then the observer is called.
  The result says what the call threw, if anything; the entry is in the log either
  way.
\<close>

definition log_obs ::
  "observers \<Rightarrow> run_state \<Rightarrow> LogLevel \<Rightarrow> string \<Rightarrow> string option \<Rightarrow> thrown option \<times> run_state" where
  "log_obs obs st lvl msg nid =
     ((case obs_onLog obs of
         None \<Rightarrow> None
       | Some callback \<Rightarrow> callback \<lparr>log_nodeId = nid, message = msg, level = lvl\<rparr>),
      log st lvl msg nid)"

text \<open>\<^verbatim>\<open>this.onNodeUpdate?.(node.id, nodeExecution)\<close>.\<close>

definition onNodeUpdate_obs ::
  "observers \<Rightarrow> run_state \<Rightarrow> string \<Rightarrow> NodeExecution \<Rightarrow> thrown option \<times> run_state" where
  "onNodeUpdate_obs obs st nid ne =
     ((case obs_onNodeUpdate obs of
         None \<Rightarrow> None
       | Some callback \<Rightarrow> callback nid ne),
      onNodeUpdate st nid ne)"

text \<open>
  The \<^verbatim>\<open>catch\<close> block of \<^verbatim>\<open>executeNode\<close> (lines 177 to 185): when the observer
  throws at line 183, its error leaves the block and line 184 is not reached.
\<close>

definition nodeFailed_obs ::
  "observers \<Rightarrow> NodeExecution \<Rightarrow> thrown \<Rightarrow> run_state \<Rightarrow> node_end \<times> run_state" where
  "nodeFailed_obs obs nodeExecution err st =
     (let ne = nodeExecution\<lparr>ne_status := Error,
                 ne_error := Some (errorMessage err),
                 ne_endTime := Some (now st),
                 ne_duration := elapsedSince (ne_startTime nodeExecution) (now st)\<rparr>;
          st1 = putNodeExecution (tick st) ne
      in case log_obs obs st1 ErrorLevel (sym_siren @ '' Node failed: '' @ errorMessage err)
                (Some (ne_nodeId ne)) of
           (Some thrownByObserver, st2) \<Rightarrow> (Threw thrownByObserver, st2)
         | (None, st2) \<Rightarrow> (Threw err, st2))"

text \<open>
  The success path (lines 149 to 175 and 187). Line 174 is inside the \<^verbatim>\<open>try\<close>:
  when the observer throws there, the \<^verbatim>\<open>catch\<close> block marks the node, which was
  a success, as failed. Line 187 is after the \<^verbatim>\<open>try\<close>: what the observer throws
  there leaves \<^verbatim>\<open>executeNode\<close>.
\<close>

definition nodeSucceeded_obs ::
  "observers \<Rightarrow> WorkflowNode \<Rightarrow> NodeExecution \<Rightarrow> jsval \<Rightarrow> run_state \<Rightarrow> node_end \<times> run_state" where
  "nodeSucceeded_obs obs node nodeExecution result st =
     (let returnOutputs = (if isObjectLike result then asRecord result
                           else [''value'' \<mapsto> result]);
          ne = nodeExecution\<lparr>ne_status := Success,
                 ne_outputs := Some (spread (slotOf (nodeOutputs st) (node_id node)) returnOutputs),
                 ne_endTime := Some (now st),
                 ne_duration := elapsedSince (ne_startTime nodeExecution) (now st)\<rparr>;
          st1 = putNodeExecution (tick st) ne;
          st2 = (if isObjectLike result
                 then st1\<lparr>nodeOutputs := (nodeOutputs st1)(node_id node \<mapsto>
                        spread (slotOf (nodeOutputs st1) (node_id node)) (asRecord result))\<rparr>
                 else st1)
      in case (if node_type node \<noteq> ''starter''
               then log_obs obs st2 Info (sym_check @ '' '' @ node_type node @ '' completed'')
                      (Some (node_id node))
               else (None, st2)) of
           (Some thrownByObserver, st3) \<Rightarrow> nodeFailed_obs obs ne thrownByObserver st3
         | (None, st3) \<Rightarrow>
             (case onNodeUpdate_obs obs st3 (node_id node) ne of
                (Some thrownByObserver, st4) \<Rightarrow> (Threw thrownByObserver, st4)
              | (None, st4) \<Rightarrow> (Completed, st4)))"

text \<open>
  \<^verbatim>\<open>executeNode\<close> (lines 94 to 188). Line 108 is before the \<^verbatim>\<open>try\<close>; line 113
  is inside it. The calls of \<^verbatim>\<open>ctx.log\<close> that the behaviour makes reach the
  observer too, inside the behaviour: what the behaviour does when such a call
  throws is part of the behaviour, and shows in its outcome.
\<close>

definition executeNode_obs ::
  "observers \<Rightarrow> (string \<Rightarrow> BlockConfig option) \<Rightarrow> Workflow \<Rightarrow> WorkflowNode
     \<Rightarrow> (string \<Rightarrow> string option) \<Rightarrow> run_state \<Rightarrow> node_end \<times> run_state" where
  "executeNode_obs obs getBlockConfig workflow node env st =
     (let nodeExecution = newNodeExecution node st
      in case onNodeUpdate_obs obs (putNodeExecution (tick st) nodeExecution) (node_id node)
                nodeExecution of
           (Some thrownByObserver, st1) \<Rightarrow> (Threw thrownByObserver, st1)
         | (None, st1) \<Rightarrow>
             (case (if node_type node \<noteq> ''starter''
                    then log_obs obs st1 Info
                           (sym_bolt @ '' '' @ node_type node @ '': '' @ node_id node)
                           (Some (node_id node))
                    else (None, st1)) of
                (Some thrownByObserver, st2) \<Rightarrow> nodeFailed_obs obs nodeExecution thrownByObserver st2
              | (None, st2) \<Rightarrow>
                  (case runOf getBlockConfig (node_type node) of
                     None \<Rightarrow>
                       nodeFailed_obs obs nodeExecution
                         (JsError (''Block type '' @ node_type node @ '' not found or not executable''))
                         st2
                   | Some runBlock \<Rightarrow>
                       (let context = makeContext workflow node env st2;
                            out = runBlock context;
                            st3 = awaited out (fold (applyCall (node_id node)) (calls out)
                                                 (noteInvocation st2 (node_id node) context))
                        in case settles out of
                             NeverSettles \<Rightarrow> (Hung, st3)
                           | Throws err \<Rightarrow> nodeFailed_obs obs nodeExecution err st3
                           | Returns result \<Rightarrow>
                               nodeSucceeded_obs obs node nodeExecution result st3))))"

text \<open>
  The loop (lines 48 to 75): when the observer throws at line 67, inside the inner
  \<^verbatim>\<open>catch\<close>, its error is the one that reaches the outer \<^verbatim>\<open>catch\<close>.
\<close>

function runLoop_obs ::
  "observers \<Rightarrow> (string \<Rightarrow> BlockConfig option) \<Rightarrow> Workflow \<Rightarrow> (string \<Rightarrow> string option)
     \<Rightarrow> string list \<Rightarrow> string set \<Rightarrow> run_state \<Rightarrow> node_end \<times> run_state" where
  "runLoop_obs obs getBlockConfig workflow env [] visited st = (Completed, st)"
| "runLoop_obs obs getBlockConfig workflow env (nodeId # rest) visited st =
     (if aborted st then (Completed, setStatus st Cancelled)
      else if nodeId \<in> visited then runLoop_obs obs getBlockConfig workflow env rest visited st
      else (case find (\<lambda>n. node_id n = nodeId) (nodes workflow) of
              None \<Rightarrow> runLoop_obs obs getBlockConfig workflow env rest (insert nodeId visited) st
            | Some node \<Rightarrow>
                (case executeNode_obs obs getBlockConfig workflow node env st of
                   (Hung, st') \<Rightarrow> (Hung, st')
                 | (Threw err, st') \<Rightarrow>
                     (case log_obs obs (setStatus st' Error) ErrorLevel
                             (sym_cross @ '' Node '' @ [CHR 0x22] @ node_id node @ [CHR 0x22]
                                @ '' failed: '' @ errorMessage err) None of
                        (Some thrownByObserver, st'') \<Rightarrow> (Threw thrownByObserver, st'')
                      | (None, st'') \<Rightarrow> (Threw err, st''))
                 | (Completed, st') \<Rightarrow>
                     runLoop_obs obs getBlockConfig workflow env
                       (rest @ filter (\<lambda>i. i \<notin> insert nodeId visited)
                                 (map node_id (getConnectedNodes workflow nodeId)))
                       (insert nodeId visited) st')))"
  by pat_completeness auto

termination runLoop_obs
proof -
  have skip: "card (unvisited w rest visited) \<le> card (unvisited w (x # rest) visited)"
    for w rest visited x
    by (rule card_mono) (auto simp: unvisited_def)
  have visit: "card (unvisited w (rest @ new) (insert x visited)) < card (unvisited w (x # rest) visited)"
    if "x \<notin> visited" "set new \<subseteq> node_id ` set (nodes w)" for w rest new visited x
  proof -
    have "unvisited w (rest @ new) (insert x visited) \<subset> unvisited w (x # rest) visited"
      using that by (auto simp: unvisited_def)
    then show ?thesis
      by (intro psubset_card_mono) (simp_all add: unvisited_def)
  qed
  have conn: "set (filter (\<lambda>i. i \<notin> insert x visited) (map node_id (getConnectedNodes w x)))
                \<subseteq> node_id ` set (nodes w)" for w x visited
    by (auto simp: getConnectedNodes_def)
  show ?thesis
  proof (relation "inv_image (less_than <*lex*> less_than)
     (\<lambda>(obs, g, w, e, queue, visited, st). (card (unvisited w queue visited), length queue))", goal_cases)
    case 1
    show ?case by (intro wf_inv_image wf_lex_prod wf_less_than)
  next
    case 2
    then show ?case using skip by (auto simp: le_less)
  next
    case 3
    then show ?case using visit[where new = "[]"] by simp
  next
    case 4
    then show ?case using visit[OF _ conn] by simp
  qed
qed

declare runLoop_obs.simps [simp del]

text \<open>
  The body of the outer \<^verbatim>\<open>try\<close> (lines 31 to 80): what the observer throws at
  line 79 goes to the outer \<^verbatim>\<open>catch\<close>, after the status was set to success.
\<close>

definition tryBody_obs ::
  "observers \<Rightarrow> (string \<Rightarrow> BlockConfig option) \<Rightarrow> Workflow \<Rightarrow> (string \<Rightarrow> string option)
     \<Rightarrow> run_state \<Rightarrow> node_end \<times> run_state" where
  "tryBody_obs obs getBlockConfig workflow env st =
     (case validateWorkflow workflow of
        Inl err \<Rightarrow> (Threw err, st)
      | Inr ok \<Rightarrow>
          (case find (\<lambda>node. node_id node = starterId workflow) (nodes workflow) of
             None \<Rightarrow> (Threw (JsError ''Start node not found''), st)
           | Some startNode \<Rightarrow>
               (case runLoop_obs obs getBlockConfig workflow env [node_id startNode] {} st of
                  (Completed, st') \<Rightarrow>
                    (if status (execution st') \<noteq> Cancelled
                     then (case log_obs obs (setStatus st' Success) Info
                                  (sym_check @ '' Workflow completed'') None of
                             (Some thrownByObserver, st'') \<Rightarrow> (Threw thrownByObserver, st'')
                           | (None, st'') \<Rightarrow> (Completed, st''))
                     else (Completed, st'))
                | (Threw err, st') \<Rightarrow> (Threw err, st')
                | (Hung, st') \<Rightarrow> (Hung, st'))))"

text \<open>
  \<^verbatim>\<open>ExecutionEngine.executeWorkflow\<close> (lines 17 to 92). Line 29 is before the
  \<^verbatim>\<open>try\<close> and line 85 is inside the outer \<^verbatim>\<open>catch\<close>: what the observer throws
  at either place rejects the promise.
\<close>

definition runWorkflow_obs ::
  "observers \<Rightarrow> (string \<Rightarrow> BlockConfig option) \<Rightarrow> Workflow \<Rightarrow> (string \<Rightarrow> string option)
     \<Rightarrow> (nat \<Rightarrow> nat) \<Rightarrow> run_state promise" where
  "runWorkflow_obs obs getBlockConfig workflow env clk =
     (case log_obs obs (newRun workflow clk) Info
             (sym_rocket @ '' Starting workflow: '' @ workflow_name workflow) None of
        (Some thrownByObserver, st0) \<Rightarrow> Rejected thrownByObserver
      | (None, st0) \<Rightarrow>
          (case tryBody_obs obs getBlockConfig workflow env st0 of
             (Completed, st) \<Rightarrow> Resolved (finish st)
           | (Threw err, st) \<Rightarrow>
               (case log_obs obs (setStatus st Error) ErrorLevel
                       (sym_boom @ '' Workflow failed: '' @ errorMessage err) None of
                  (Some thrownByObserver, st') \<Rightarrow> Rejected thrownByObserver
                | (None, st') \<Rightarrow> Resolved (finish st'))
           | (Hung, st) \<Rightarrow> Pending))"

text \<open>
  The exported \<^verbatim>\<open>executeWorkflow\<close> (lines 261 to 269) and \<^verbatim>\<open>startWorkflow\<close>
  (lines 273 to 282), which take the observers and pass them to the constructor.
\<close>

definition executeWorkflow_obs ::
  "observers \<Rightarrow> (string \<Rightarrow> BlockConfig option) \<Rightarrow> Workflow \<Rightarrow> (string \<Rightarrow> string option)
     \<Rightarrow> (nat \<Rightarrow> nat) \<Rightarrow> WorkflowExecution promise" where
  "executeWorkflow_obs obs getBlockConfig workflow env clk =
     map_promise execution (runWorkflow_obs obs getBlockConfig workflow env clk)"


section \<open>\<^verbatim>\<open>createFetchWithTimeout\<close>\<close>





section \<open>Vocabulary of the claims\<close>

text \<open>The notifications of a final state, reduced to node and status.\<close>

definition statusTrace :: "run_state \<Rightarrow> (string \<times> ExecutionStatus) list" where
  "statusTrace s = map (\<lambda>(i, ne). (i, ne_status ne)) (notified s)"

text \<open>The promise was rejected: an error escaped to the caller.\<close>

fun isRejected :: "'a promise \<Rightarrow> bool" where
  "isRejected (Rejected e) = True"
| "isRejected p = False"

text \<open>
  Every behaviour of the registry settles on every context: its promise is resolved
  or rejected.
\<close>

definition settling :: "(string \<Rightarrow> BlockConfig option) \<Rightarrow> bool" where
  "settling g = (\<forall>t f ctx. runOf g t = Some f \<longrightarrow> settles (f ctx) \<noteq> NeverSettles)"

text \<open>
  The nodes that were started, in order: \<^verbatim>\<open>executeNode\<close> tells the observer once
  that the node is \<open>Running\<close>, before it looks the behaviour up and invokes it.
\<close>

definition started :: "(string \<times> NodeExecution) list \<Rightarrow> string list" where
  "started tr = map fst (filter (\<lambda>(i, ne). ne_status ne = Running) tr)"

text \<open>
  A check of a sequence of observer notifications: each time a node is reported
  \<open>Running\<close>, the condition \<open>ready\<close> holds of the set of nodes reported
  \<open>Success\<close> before.
\<close>

fun startsWhen :: "(string set \<Rightarrow> string \<Rightarrow> bool) \<Rightarrow> string set \<Rightarrow> (string \<times> NodeExecution) list \<Rightarrow> bool" where
  "startsWhen ready succeeded [] = True"
| "startsWhen ready succeeded ((i, ne) # tr) =
     (if ne_status ne = Running then ready succeeded i \<and> startsWhen ready succeeded tr
      else if ne_status ne = Success then startsWhen ready (insert i succeeded) tr
      else startsWhen ready succeeded tr)"

text \<open>Every node with an edge into \<open>n\<close> has succeeded (the condition of claim C1).\<close>

definition allPredecessorsSucceeded :: "Workflow \<Rightarrow> string set \<Rightarrow> string \<Rightarrow> bool" where
  "allPredecessorsSucceeded w succeeded n =
     (\<forall>edge \<in> set (edges w). target edge = n \<longrightarrow> source edge \<in> succeeded)"

text \<open>\<open>n\<close> is the starter, or some node with an edge into \<open>n\<close> has succeeded.\<close>

definition somePredecessorSucceeded :: "Workflow \<Rightarrow> string set \<Rightarrow> string \<Rightarrow> bool" where
  "somePredecessorSucceeded w succeeded n =
     (n = starterId w \<or> (\<exists>edge \<in> set (edges w). target edge = n \<and> source edge \<in> succeeded))"

text \<open>The two conditions, checked on the notifications of a final state.\<close>

definition startsAfterAllPredecessors :: "Workflow \<Rightarrow> run_state \<Rightarrow> bool" where
  "startsAfterAllPredecessors w s = startsWhen (allPredecessorsSucceeded w) {} (notified s)"

definition startsAfterSomePredecessor :: "Workflow \<Rightarrow> run_state \<Rightarrow> bool" where
  "startsAfterSomePredecessor w s = startsWhen (somePredecessorSucceeded w) {} (notified s)"

text \<open>
  \<open>reachAvoiding w a x\<close>: the node \<open>x\<close> can be reached from the starter along edges
  without passing through \<open>a\<close>. A node other than \<open>a\<close> for which this fails is
  reachable only through \<open>a\<close>, or not at all.
\<close>

inductive reachAvoiding :: "Workflow \<Rightarrow> string \<Rightarrow> string \<Rightarrow> bool" for w :: Workflow and a :: string where
  start: "starterId w \<noteq> a \<Longrightarrow> reachAvoiding w a (starterId w)"
| step: "reachAvoiding w a p \<Longrightarrow> edge \<in> set (edges w) \<Longrightarrow> source edge = p \<Longrightarrow> target edge = x
           \<Longrightarrow> x \<noteq> a \<Longrightarrow> reachAvoiding w a x"

code_pred reachAvoiding .

text \<open>The status in the record of node \<open>i\<close>, if it has one.\<close>

definition nodeStatus :: "string \<Rightarrow> run_state \<Rightarrow> ExecutionStatus option" where
  "nodeStatus i s = map_option ne_status (nodeExecutions (execution s) i)"

text \<open>The nodes started in a final state.\<close>

definition startedNodes :: "run_state \<Rightarrow> string list" where
  "startedNodes s = started (notified s)"


text \<open>
  The properties that a sequence of context calls leaves in a slot, from those it
  starts with; a write under \<^verbatim>\<open>__proto__\<close> leaves none.
\<close>

fun writes :: "ctx_call list \<Rightarrow> props \<Rightarrow> props" where
  "writes [] slot = slot"
| "writes (Log m # cs) slot = writes cs slot"
| "writes (SetNodeOutput k v # cs) slot =
     writes cs (if k = ''__proto__'' then slot else slot(k \<mapsto> v))"

text \<open>Among the context calls \<open>cs\<close> there is a write under \<^verbatim>\<open>__proto__\<close>.\<close>

definition writesProto :: "ctx_call list \<Rightarrow> bool" where
  "writesProto cs = (\<exists>c \<in> set cs. case c of SetNodeOutput k v \<Rightarrow> k = ''__proto__'' | Log m \<Rightarrow> False)"

text \<open>
  The contexts with which the run that ended in the state \<open>s\<close> invoked the
  behaviour of the node \<open>i\<close>, in order; and: it invoked that behaviour exactly
  once, with the context \<open>ctx\<close>.
\<close>

definition invocationsOf :: "run_state \<Rightarrow> string \<Rightarrow> RunContext list" where
  "invocationsOf s i = map snd (filter (\<lambda>(j, c). j = i) (invoked s))"

definition invokedOnceWith :: "run_state \<Rightarrow> string \<Rightarrow> RunContext \<Rightarrow> bool" where
  "invokedOnceWith s i ctx = (invocationsOf s i = [ctx])"

text \<open>
  What the node \<open>i\<close> did in the run that ended in the state \<open>s\<close>: the engine
  invoked the behaviour of the node of that identifier exactly once, and on the
  context of that invocation the behaviour made the context calls \<open>cs\<close> and
  returned \<open>result\<close>.
\<close>

definition ranAs ::
  "(string \<Rightarrow> BlockConfig option) \<Rightarrow> Workflow \<Rightarrow> run_state \<Rightarrow> string
     \<Rightarrow> ctx_call list \<Rightarrow> jsval \<Rightarrow> bool" where
  "ranAs g w s i cs result =
     (\<exists>node f ctx. find (\<lambda>n. node_id n = i) (nodes w) = Some node
        \<and> runOf g (node_type node) = Some f
        \<and> invokedOnceWith s i ctx
        \<and> calls (f ctx) = cs
        \<and> settles (f ctx) = Returns result)"

text \<open>
  The observers return normally, whatever they are called with.
\<close>

definition returning :: "observers \<Rightarrow> bool" where
  "returning obs =
     ((case obs_onLog obs of None \<Rightarrow> True | Some callback \<Rightarrow> \<forall>entry. callback entry = None)
      \<and> (case obs_onNodeUpdate obs of None \<Rightarrow> True
          | Some callback \<Rightarrow> \<forall>nid ne. callback nid ne = None))"

text \<open>What a later node reads with \<^verbatim>\<open>getNodeOutput(i, k)\<close> in the state \<open>s\<close>.\<close>

definition readOutput :: "string \<Rightarrow> string \<Rightarrow> run_state \<Rightarrow> jsval" where
  "readOutput i k s = getNodeOutput (nodeOutputs s) i (Some k)"

text \<open>The value recorded under the key \<open>k\<close> in the outputs of the execution of node \<open>i\<close>.\<close>

definition recordedOutput :: "string \<Rightarrow> string \<Rightarrow> run_state \<Rightarrow> jsval option" where
  "recordedOutput i k s =
     (case nodeExecutions (execution s) i of
        None \<Rightarrow> None
      | Some ne \<Rightarrow> (case ne_outputs ne of None \<Rightarrow> None | Some outs \<Rightarrow> outs k))"

section \<open>Auxiliary definitions for the proofs\<close>

text \<open>
  The record of a node after a failure and after a success, as the \<^verbatim>\<open>catch\<close>
  block and the success path of \<^verbatim>\<open>executeNode\<close> build them, and the state when
  the awaited behaviour has settled.
\<close>

definition failedRecord :: "NodeExecution \<Rightarrow> thrown \<Rightarrow> nat \<Rightarrow> NodeExecution" where
  "failedRecord ne0 err t =
     ne0\<lparr>ne_status := Error, ne_error := Some (errorMessage err), ne_endTime := Some t,
         ne_duration := elapsedSince (ne_startTime ne0) t\<rparr>"

definition succeededRecord :: "NodeExecution \<Rightarrow> props \<Rightarrow> jsval \<Rightarrow> nat \<Rightarrow> NodeExecution" where
  "succeededRecord ne0 slot result t =
     ne0\<lparr>ne_status := Success,
         ne_outputs := Some (spread slot (if isObjectLike result then asRecord result else [''value'' \<mapsto> result])),
         ne_endTime := Some t,
         ne_duration := elapsedSince (ne_startTime ne0) t\<rparr>"

definition afterAwait :: "WorkflowNode \<Rightarrow> RunContext \<Rightarrow> outcome \<Rightarrow> run_state \<Rightarrow> run_state" where
  "afterAwait node context out st =
     awaited out (fold (applyCall (node_id node)) (calls out)
                    (noteInvocation (nodeStarted node st) (node_id node) context))"

text \<open>The nodes reported \<open>Success\<close> in a sequence of notifications.\<close>

definition succeededIn :: "(string \<times> NodeExecution) list \<Rightarrow> string set" where
  "succeededIn tr = {i. \<exists>ne. (i, ne) \<in> set tr \<and> ne_status ne = Success}"

text \<open>
  The record \<open>ne\<close> and the registry slot of the node \<open>i\<close> in the state \<open>s\<close> are
  those that lines 151 to 170 build from the calls and the result of the one
  invocation of its behaviour.
\<close>

definition nodePublished ::
  "(string \<Rightarrow> BlockConfig option) \<Rightarrow> Workflow \<Rightarrow> run_state \<Rightarrow> string \<Rightarrow> NodeExecution \<Rightarrow> bool" where
  "nodePublished g w s i ne =
     (\<exists>cs result. ranAs g w s i cs result
        \<and> ne_outputs ne = Some (spread (writes cs Map.empty)
             (if isObjectLike result then asRecord result else [''value'' \<mapsto> result]))
        \<and> slotOf (nodeOutputs s) i =
             (if isObjectLike result then spread (writes cs Map.empty) (asRecord result)
              else writes cs Map.empty))"

section \<open>Example registry and workflows\<close>

text \<open>
  Concrete inputs on which the engine is run in the witnesses and counterexamples:
  nodes without configuration, a few behaviours, and a registry that resolves a few
  type names.
\<close>

definition mkNode :: "string \<Rightarrow> string \<Rightarrow> WorkflowNode" where
  "mkNode i t = \<lparr>node_id = i, node_type = t, node_data = Map.empty\<rparr>"

definition mkEdge :: "string \<Rightarrow> string \<Rightarrow> WorkflowEdge" where
  "mkEdge s t = \<lparr>source = s, target = t\<rparr>"

text \<open>A behaviour that returns an empty object, and one that writes an output and throws.\<close>

definition passBlock :: behaviour where
  "passBlock ctx = \<lparr>calls = [], stopRequested = False, settles = Returns (JObj Map.empty)\<rparr>"

definition failBlock :: behaviour where
  "failBlock ctx = \<lparr>calls = [SetNodeOutput ''error'' (JStr ''boom'')],
      stopRequested = False, settles = Throws (JsError ''boom'')\<rparr>"

text \<open>
  A behaviour during which \<^verbatim>\<open>engine.stop()\<close> is called and which returns, and one
  which throws instead (as an aborted \<^verbatim>\<open>fetch\<close> does).
\<close>

definition stopBlock :: behaviour where
  "stopBlock ctx = \<lparr>calls = [SetNodeOutput ''seen'' (JBool True)],
      stopRequested = True, settles = Returns (JObj Map.empty)\<rparr>"

definition stopFailBlock :: behaviour where
  "stopFailBlock ctx = \<lparr>calls = [], stopRequested = True,
      settles = Throws (JsError ''The operation was aborted.'')\<rparr>"

text \<open>
  A behaviour that writes \<open>{a: 1}\<close> through \<^verbatim>\<open>setNodeOutput\<close> and returns
  \<open>{a: 2, b: 3}\<close>; one that returns a string; and one that returns what
  \<^verbatim>\<open>getNodeOutput('T', 'value')\<close> gives it.
\<close>

definition mergeBlock :: behaviour where
  "mergeBlock ctx = \<lparr>calls = [SetNodeOutput ''a'' (JNum 1)], stopRequested = False,
      settles = Returns (JObj [''a'' \<mapsto> JNum 2, ''b'' \<mapsto> JNum 3])\<rparr>"

definition textBlock :: behaviour where
  "textBlock ctx = \<lparr>calls = [], stopRequested = False,
      settles = Returns (JStr ''hello'')\<rparr>"

definition echoBlock :: behaviour where
  "echoBlock ctx = \<lparr>calls = [], stopRequested = False,
      settles = Returns (JObj [''got'' \<mapsto> getNodeOutput (ctx_nodeOutputs ctx) ''T'' (Some ''value'')])\<rparr>"

text \<open>
  Behaviours whose result depends on the context: one returns what
  \<^verbatim>\<open>getNodeOutput('M')\<close> gives it, the other returns a string, or an empty
  object when the engine is already stopped as it starts.
\<close>

definition relayBlock :: behaviour where
  "relayBlock ctx = \<lparr>calls = [], stopRequested = False,
      settles = Returns (getNodeOutput (ctx_nodeOutputs ctx) ''M'' None)\<rparr>"

definition guardBlock :: behaviour where
  "guardBlock ctx = \<lparr>calls = [], stopRequested = False,
      settles = Returns (if ctx_aborted ctx then JObj Map.empty else JStr ''hello'')\<rparr>"


definition exampleBlocks :: "string \<Rightarrow> BlockConfig option" where
  "exampleBlocks t =
     (if t = ''starter'' \<or> t = ''pass'' then Some \<lparr>run = Some passBlock\<rparr>
      else if t = ''fail'' then Some \<lparr>run = Some failBlock\<rparr>
      else if t = ''stop'' then Some \<lparr>run = Some stopBlock\<rparr>
      else if t = ''stopfail'' then Some \<lparr>run = Some stopFailBlock\<rparr>
      else if t = ''merge'' then Some \<lparr>run = Some mergeBlock\<rparr>
      else if t = ''text'' then Some \<lparr>run = Some textBlock\<rparr>
      else if t = ''echo'' then Some \<lparr>run = Some echoBlock\<rparr>
      else if t = ''relay'' then Some \<lparr>run = Some relayBlock\<rparr>
      else if t = ''guard'' then Some \<lparr>run = Some guardBlock\<rparr>
      else None)"


text \<open>A clock that starts at 1000 and advances by one millisecond from reading to reading.\<close>

definition exampleClock :: "nat \<Rightarrow> nat" where
  "exampleClock n = 1000 + n"

text \<open>
  No observers; observers that return; and an \<^verbatim>\<open>onLog\<close> observer that throws
  when it is handed an entry of level error.
\<close>

definition noObservers :: observers where
  "noObservers = \<lparr>obs_onLog = None, obs_onNodeUpdate = None\<rparr>"

definition quietObservers :: observers where
  "quietObservers = \<lparr>obs_onLog = Some (\<lambda>entry. None), obs_onNodeUpdate = Some (\<lambda>nid ne. None)\<rparr>"


text \<open>The starter identifier matches no node.\<close>

definition wf_nostart :: Workflow where
  "wf_nostart = \<lparr>workflow_id = ''w3'', workflow_name = ''nostart'',
      nodes = [mkNode ''A'' ''pass''], edges = [], starterId = ''S''\<rparr>"

text \<open>A cycle \<open>A \<rightarrow> B \<rightarrow> A\<close> through the starter, and an edge to an unknown node.\<close>

definition wf_cycle :: Workflow where
  "wf_cycle = \<lparr>workflow_id = ''w2'', workflow_name = ''cycle'',
      nodes = [mkNode ''A'' ''starter'', mkNode ''B'' ''pass''],
      edges = [mkEdge ''A'' ''B'', mkEdge ''B'' ''A''], starterId = ''A''\<rparr>"

definition wf_dangling :: Workflow where
  "wf_dangling = \<lparr>workflow_id = ''w2d'', workflow_name = ''dangling'',
      nodes = [mkNode ''A'' ''starter''],
      edges = [mkEdge ''A'' ''Z''], starterId = ''A''\<rparr>"

text \<open>
  An acyclic graph with a join: \<open>C\<close> has the predecessors \<open>S\<close> and \<open>B\<close>, and \<open>B\<close>
  is two edges further from the starter than \<open>C\<close> is.
\<close>

definition wf_join :: Workflow where
  "wf_join = \<lparr>workflow_id = ''w1'', workflow_name = ''join'',
      nodes = [mkNode ''S'' ''starter'', mkNode ''A'' ''pass'', mkNode ''B'' ''pass'', mkNode ''C'' ''pass''],
      edges = [mkEdge ''S'' ''A'', mkEdge ''A'' ''B'', mkEdge ''B'' ''C'', mkEdge ''S'' ''C''],
      starterId = ''S''\<rparr>"

text \<open>The node \<open>A\<close> fails; \<open>X\<close> can be reached only through \<open>A\<close>, \<open>B\<close> also from \<open>S\<close>.\<close>

definition wf_fail :: Workflow where
  "wf_fail = \<lparr>workflow_id = ''w5'', workflow_name = ''fail'',
      nodes = [mkNode ''S'' ''starter'', mkNode ''A'' ''fail'', mkNode ''B'' ''pass'', mkNode ''X'' ''pass''],
      edges = [mkEdge ''S'' ''A'', mkEdge ''S'' ''B'', mkEdge ''A'' ''X''], starterId = ''S''\<rparr>"




text \<open>
  The node \<open>R\<close> returns the slot of the node \<open>M\<close> before it; and a single node
  whose result depends on the abort signal.
\<close>

definition wf_relay :: Workflow where
  "wf_relay = \<lparr>workflow_id = ''w4r'', workflow_name = ''relay'',
      nodes = [mkNode ''M'' ''merge'', mkNode ''R'' ''relay''], edges = [mkEdge ''M'' ''R''],
      starterId = ''M''\<rparr>"

definition wf_guard :: Workflow where
  "wf_guard = \<lparr>workflow_id = ''w7g'', workflow_name = ''guard'',
      nodes = [mkNode ''G'' ''guard''], edges = [], starterId = ''G''\<rparr>"


text \<open>The example of the specification for claim C4, and a node that returns a string.\<close>

definition wf_merge :: Workflow where
  "wf_merge = \<lparr>workflow_id = ''w4'', workflow_name = ''merge'',
      nodes = [mkNode ''M'' ''merge''], edges = [], starterId = ''M''\<rparr>"

definition wf_text :: Workflow where
  "wf_text = \<lparr>workflow_id = ''w7'', workflow_name = ''text'',
      nodes = [mkNode ''T'' ''text'', mkNode ''R'' ''echo''], edges = [mkEdge ''T'' ''R''],
      starterId = ''T''\<rparr>"








section \<open>What the state updates change\<close>

text \<open>Each update of the state touches the fields it names and no other.\<close>

lemma log_simps [simp]:
  "nodeOutputs (log st l m n) = nodeOutputs st"
  "aborted (log st l m n) = aborted st"
  "now (log st l m n) = now st"
  "clock (log st l m n) = clock st"
  "reads (log st l m n) = reads st"
  "invoked (log st l m n) = invoked st"
  "notified (log st l m n) = notified st"
  "status (execution (log st l m n)) = status (execution st)"
  "startTime (execution (log st l m n)) = startTime (execution st)"
  "endTime (execution (log st l m n)) = endTime (execution st)"
  "duration (execution (log st l m n)) = duration (execution st)"
  "workflowId (execution (log st l m n)) = workflowId (execution st)"
  "nodeExecutions (execution (log st l m n)) = nodeExecutions (execution st)"
  "logs (execution (log st l m n)) = logs (execution st) @ [\<lparr>log_nodeId = n, message = m, level = l\<rparr>]"
  by (simp_all add: log_def now_def)

lemma setStatus_simps [simp]:
  "nodeOutputs (setStatus st s) = nodeOutputs st"
  "aborted (setStatus st s) = aborted st"
  "now (setStatus st s) = now st"
  "clock (setStatus st s) = clock st"
  "reads (setStatus st s) = reads st"
  "invoked (setStatus st s) = invoked st"
  "notified (setStatus st s) = notified st"
  "status (execution (setStatus st s)) = s"
  "startTime (execution (setStatus st s)) = startTime (execution st)"
  "endTime (execution (setStatus st s)) = endTime (execution st)"
  "duration (execution (setStatus st s)) = duration (execution st)"
  "workflowId (execution (setStatus st s)) = workflowId (execution st)"
  "nodeExecutions (execution (setStatus st s)) = nodeExecutions (execution st)"
  "logs (execution (setStatus st s)) = logs (execution st)"
  by (simp_all add: setStatus_def now_def)

lemma putNodeExecution_simps [simp]:
  "nodeOutputs (putNodeExecution st ne) = nodeOutputs st"
  "aborted (putNodeExecution st ne) = aborted st"
  "now (putNodeExecution st ne) = now st"
  "clock (putNodeExecution st ne) = clock st"
  "reads (putNodeExecution st ne) = reads st"
  "invoked (putNodeExecution st ne) = invoked st"
  "notified (putNodeExecution st ne) = notified st"
  "status (execution (putNodeExecution st ne)) = status (execution st)"
  "startTime (execution (putNodeExecution st ne)) = startTime (execution st)"
  "endTime (execution (putNodeExecution st ne)) = endTime (execution st)"
  "duration (execution (putNodeExecution st ne)) = duration (execution st)"
  "workflowId (execution (putNodeExecution st ne)) = workflowId (execution st)"
  "nodeExecutions (execution (putNodeExecution st ne)) = (nodeExecutions (execution st))(ne_nodeId ne \<mapsto> ne)"
  "logs (execution (putNodeExecution st ne)) = logs (execution st)"
  by (simp_all add: putNodeExecution_def now_def)

lemma onNodeUpdate_simps [simp]:
  "nodeOutputs (onNodeUpdate st i ne) = nodeOutputs st"
  "aborted (onNodeUpdate st i ne) = aborted st"
  "now (onNodeUpdate st i ne) = now st"
  "clock (onNodeUpdate st i ne) = clock st"
  "reads (onNodeUpdate st i ne) = reads st"
  "invoked (onNodeUpdate st i ne) = invoked st"
  "notified (onNodeUpdate st i ne) = notified st @ [(i, ne)]"
  "execution (onNodeUpdate st i ne) = execution st"
  by (simp_all add: onNodeUpdate_def now_def)

lemma awaited_simps [simp]:
  "nodeOutputs (awaited out st) = nodeOutputs st"
  "aborted (awaited out st) = (aborted st \<or> stopRequested out)"
  "now (awaited out st) = now st"
  "clock (awaited out st) = clock st"
  "reads (awaited out st) = reads st"
  "invoked (awaited out st) = invoked st"
  "notified (awaited out st) = notified st"
  "execution (awaited out st) = execution st"
  by (simp_all add: awaited_def now_def)

lemma tick_simps [simp]:
  "nodeOutputs (tick st) = nodeOutputs st"
  "aborted (tick st) = aborted st"
  "clock (tick st) = clock st"
  "reads (tick st) = Suc (reads st)"
  "notified (tick st) = notified st"
  "invoked (tick st) = invoked st"
  "execution (tick st) = execution st"
  by (simp_all add: tick_def)

lemma noteInvocation_simps [simp]:
  "nodeOutputs (noteInvocation st i c) = nodeOutputs st"
  "aborted (noteInvocation st i c) = aborted st"
  "now (noteInvocation st i c) = now st"
  "clock (noteInvocation st i c) = clock st"
  "reads (noteInvocation st i c) = reads st"
  "notified (noteInvocation st i c) = notified st"
  "invoked (noteInvocation st i c) = invoked st @ [(i, c)]"
  "execution (noteInvocation st i c) = execution st"
  by (simp_all add: noteInvocation_def now_def)

lemma applyCall_frame [simp]:
  "aborted (applyCall i c st) = aborted st"
  "now (applyCall i c st) = now st"
  "clock (applyCall i c st) = clock st"
  "reads (applyCall i c st) = reads st"
  "invoked (applyCall i c st) = invoked st"
  "notified (applyCall i c st) = notified st"
  "status (execution (applyCall i c st)) = status (execution st)"
  "startTime (execution (applyCall i c st)) = startTime (execution st)"
  "nodeExecutions (execution (applyCall i c st)) = nodeExecutions (execution st)"
  by (cases c; simp add: now_def)+

lemma fold_applyCall_simps [simp]:
  "aborted (fold (applyCall i) cs st) = aborted st"
  "now (fold (applyCall i) cs st) = now st"
  "clock (fold (applyCall i) cs st) = clock st"
  "reads (fold (applyCall i) cs st) = reads st"
  "invoked (fold (applyCall i) cs st) = invoked st"
  "notified (fold (applyCall i) cs st) = notified st"
  "status (execution (fold (applyCall i) cs st)) = status (execution st)"
  "startTime (execution (fold (applyCall i) cs st)) = startTime (execution st)"
  "nodeExecutions (execution (fold (applyCall i) cs st)) = nodeExecutions (execution st)"
  by (induction cs arbitrary: st; simp)+

lemma fold_applyCall_outputs_other:
  "x \<noteq> i \<Longrightarrow> nodeOutputs (fold (applyCall i) cs st) x = nodeOutputs st x"
proof (induction cs arbitrary: st)
  case Nil
  show ?case by simp
next
  case (Cons c cs)
  then show ?case by (cases c) (simp_all add: setNodeOutput_def)
qed

section \<open>One node execution\<close>

text \<open>
  The start, the failure path and the success path of \<^verbatim>\<open>executeNode\<close>, field by
  field; then \<^verbatim>\<open>executeNode\<close> itself, by the way it ends.
\<close>

lemma nodeStarted_simps [simp]:
  "nodeOutputs (nodeStarted node st) = nodeOutputs st"
  "aborted (nodeStarted node st) = aborted st"
  "now (nodeStarted node st) = now (tick st)"
  "clock (nodeStarted node st) = clock st"
  "reads (nodeStarted node st) = Suc (reads st)"
  "invoked (nodeStarted node st) = invoked st"
  "notified (nodeStarted node st) = notified st @ [(node_id node, newNodeExecution node st)]"
  "status (execution (nodeStarted node st)) = status (execution st)"
  "startTime (execution (nodeStarted node st)) = startTime (execution st)"
  "nodeExecutions (execution (nodeStarted node st)) =
     (nodeExecutions (execution st))(node_id node \<mapsto> newNodeExecution node st)"
  by (simp_all add: nodeStarted_def Let_def newNodeExecution_def now_def)

lemma newNodeExecution_simps [simp]:
  "ne_nodeId (newNodeExecution node st) = node_id node"
  "ne_status (newNodeExecution node st) = Running"
  "ne_startTime (newNodeExecution node st) = Some (now st)"
  by (simp_all add: newNodeExecution_def)

lemma nodeFailed_simps [simp]:
  "fst (nodeFailed ne0 err st) = Threw err"
  "nodeOutputs (snd (nodeFailed ne0 err st)) = nodeOutputs st"
  "aborted (snd (nodeFailed ne0 err st)) = aborted st"
  "now (snd (nodeFailed ne0 err st)) = now (tick st)"
  "invoked (snd (nodeFailed ne0 err st)) = invoked st"
  "notified (snd (nodeFailed ne0 err st)) = notified st"
  "status (execution (snd (nodeFailed ne0 err st))) = status (execution st)"
  "startTime (execution (snd (nodeFailed ne0 err st))) = startTime (execution st)"
  "nodeExecutions (execution (snd (nodeFailed ne0 err st))) =
     (nodeExecutions (execution st))(ne_nodeId ne0 \<mapsto> failedRecord ne0 err (now st))"
  "logs (execution (snd (nodeFailed ne0 err st))) = logs (execution st) @
     [\<lparr>log_nodeId = Some (ne_nodeId ne0), message = sym_siren @ '' Node failed: '' @ errorMessage err,
       level = ErrorLevel\<rparr>]"
  by (simp_all add: nodeFailed_def Let_def failedRecord_def now_def)

lemma nodeSucceeded_simps [simp]:
  "fst (nodeSucceeded node ne0 result st) = Completed"
  "aborted (snd (nodeSucceeded node ne0 result st)) = aborted st"
  "now (snd (nodeSucceeded node ne0 result st)) = now (tick st)"
  "invoked (snd (nodeSucceeded node ne0 result st)) = invoked st"
  "status (execution (snd (nodeSucceeded node ne0 result st))) = status (execution st)"
  "startTime (execution (snd (nodeSucceeded node ne0 result st))) = startTime (execution st)"
  "nodeOutputs (snd (nodeSucceeded node ne0 result st)) =
     (if isObjectLike result
      then (nodeOutputs st)(node_id node \<mapsto> spread (slotOf (nodeOutputs st) (node_id node)) (asRecord result))
      else nodeOutputs st)"
  "nodeExecutions (execution (snd (nodeSucceeded node ne0 result st))) =
     (nodeExecutions (execution st))(ne_nodeId ne0 \<mapsto>
        succeededRecord ne0 (slotOf (nodeOutputs st) (node_id node)) result (now st))"
  "notified (snd (nodeSucceeded node ne0 result st)) = notified st @
     [(node_id node, succeededRecord ne0 (slotOf (nodeOutputs st) (node_id node)) result (now st))]"
  by (simp_all add: nodeSucceeded_def Let_def succeededRecord_def now_def)

lemma afterAwait_simps [simp]:
  "aborted (afterAwait node c out st) = (aborted st \<or> stopRequested out)"
  "now (afterAwait node c out st) = now (tick st)"
  "notified (afterAwait node c out st) = notified st @ [(node_id node, newNodeExecution node st)]"
  "invoked (afterAwait node c out st) = invoked st @ [(node_id node, c)]"
  "status (execution (afterAwait node c out st)) = status (execution st)"
  "startTime (execution (afterAwait node c out st)) = startTime (execution st)"
  "nodeExecutions (execution (afterAwait node c out st)) =
     (nodeExecutions (execution st))(node_id node \<mapsto> newNodeExecution node st)"
  by (simp_all add: afterAwait_def)

lemma afterAwait_outputs_other:
  "x \<noteq> node_id node \<Longrightarrow> nodeOutputs (afterAwait node c out st) x = nodeOutputs st x"
  by (simp add: afterAwait_def fold_applyCall_outputs_other)

lemma makeContext_nodeStarted [simp]:
  "makeContext w node e (nodeStarted node st) = makeContext w node e st"
  by (simp add: makeContext_def)

lemma executeNode_unfold:
  "executeNode g w node e st =
     (case runOf g (node_type node) of
        None \<Rightarrow> nodeFailed (newNodeExecution node st)
                  (JsError (''Block type '' @ node_type node @ '' not found or not executable''))
                  (nodeStarted node st)
      | Some runBlock \<Rightarrow>
          (case settles (runBlock (makeContext w node e st)) of
             NeverSettles \<Rightarrow> (Hung, afterAwait node (makeContext w node e st) (runBlock (makeContext w node e st)) st)
           | Throws err \<Rightarrow> nodeFailed (newNodeExecution node st) err
                            (afterAwait node (makeContext w node e st) (runBlock (makeContext w node e st)) st)
           | Returns result \<Rightarrow> nodeSucceeded node (newNodeExecution node st) result
                            (afterAwait node (makeContext w node e st) (runBlock (makeContext w node e st)) st)))"
  by (simp add: executeNode_def Let_def afterAwait_def split: option.splits settled.splits)

lemma fst_nodeFailed:
  "nodeFailed ne0 err st = (r, st') \<Longrightarrow> r = Threw err \<and> st' = snd (nodeFailed ne0 err st)"
  by (simp add: nodeFailed_def Let_def)

lemma fst_nodeSucceeded:
  "nodeSucceeded node ne0 result st = (r, st') \<Longrightarrow>
     r = Completed \<and> st' = snd (nodeSucceeded node ne0 result st)"
  by (simp add: nodeSucceeded_def Let_def)

lemma executeNode_Completed:
  assumes "executeNode g w node e st = (Completed, st')"
  obtains runBlock result where
    "runOf g (node_type node) = Some runBlock"
    "settles (runBlock (makeContext w node e st)) = Returns result"
    "st' = snd (nodeSucceeded node (newNodeExecution node st) result
                  (afterAwait node (makeContext w node e st) (runBlock (makeContext w node e st)) st))"
  using assms unfolding executeNode_unfold
  by (auto split: option.splits settled.splits dest: fst_nodeFailed)

lemma executeNode_Threw:
  assumes "executeNode g w node e st = (Threw err, st')"
  obtains (NoBlock) "runOf g (node_type node) = None"
      "err = JsError (''Block type '' @ node_type node @ '' not found or not executable'')"
      "st' = snd (nodeFailed (newNodeExecution node st) err (nodeStarted node st))"
    | (Thrown) runBlock where "runOf g (node_type node) = Some runBlock"
      "settles (runBlock (makeContext w node e st)) = Throws err"
      "st' = snd (nodeFailed (newNodeExecution node st) err
                    (afterAwait node (makeContext w node e st) (runBlock (makeContext w node e st)) st))"
  using assms unfolding executeNode_unfold
  by (auto split: option.splits settled.splits dest: fst_nodeFailed fst_nodeSucceeded)

lemma executeNode_Hung:
  assumes "executeNode g w node e st = (Hung, st')"
  obtains runBlock where "runOf g (node_type node) = Some runBlock"
    "settles (runBlock (makeContext w node e st)) = NeverSettles"
    "st' = afterAwait node (makeContext w node e st) (runBlock (makeContext w node e st)) st"
  using assms unfolding executeNode_unfold
  by (auto split: option.splits settled.splits dest: fst_nodeFailed fst_nodeSucceeded)

section \<open>An invariant rule for the loop\<close>

text \<open>
  To show \<open>Q\<close> of the result of the loop it is enough to give a property \<open>I\<close> of
  the queue, the visited set and the state that holds at the start, is kept by each
  iteration that goes on, and gives \<open>Q\<close> at each exit: the empty queue, the abort
  check, a node that throws, and a behaviour that never settles.
\<close>

lemma find_node_id: "find (\<lambda>n. node_id n = x) ns = Some node \<Longrightarrow> node_id node = x \<and> node \<in> set ns"
  by (auto simp: find_Some_iff in_set_conv_nth)

lemma runLoop_rule:
  assumes init: "I queue visited st"
    and empty: "\<And>v s. I [] v s \<Longrightarrow> Q (Completed, s)"
    and cancel: "\<And>x rest v s. I (x # rest) v s \<Longrightarrow> aborted s \<Longrightarrow> Q (Completed, setStatus s Cancelled)"
    and skip: "\<And>x rest v s. I (x # rest) v s \<Longrightarrow> \<not> aborted s \<Longrightarrow> x \<in> v \<Longrightarrow> I rest v s"
    and missing: "\<And>x rest v s. I (x # rest) v s \<Longrightarrow> \<not> aborted s \<Longrightarrow> x \<notin> v
        \<Longrightarrow> find (\<lambda>n. node_id n = x) (nodes w) = None \<Longrightarrow> I rest (insert x v) s"
    and step: "\<And>x rest v s node s'. I (x # rest) v s \<Longrightarrow> \<not> aborted s \<Longrightarrow> x \<notin> v
        \<Longrightarrow> node \<in> set (nodes w) \<Longrightarrow> node_id node = x
        \<Longrightarrow> executeNode g w node e s = (Completed, s')
        \<Longrightarrow> find (\<lambda>n. node_id n = x) (nodes w) = Some node
        \<Longrightarrow> I (rest @ filter (\<lambda>i. i \<notin> insert x v) (map node_id (getConnectedNodes w x))) (insert x v) s'"
    and threw: "\<And>x rest v s node err s'. I (x # rest) v s \<Longrightarrow> \<not> aborted s \<Longrightarrow> x \<notin> v
        \<Longrightarrow> node \<in> set (nodes w) \<Longrightarrow> node_id node = x
        \<Longrightarrow> executeNode g w node e s = (Threw err, s')
        \<Longrightarrow> find (\<lambda>n. node_id n = x) (nodes w) = Some node
        \<Longrightarrow> Q (Threw err, log (setStatus s' Error) ErrorLevel
               (sym_cross @ '' Node '' @ [CHR 0x22] @ node_id node @ [CHR 0x22]
                  @ '' failed: '' @ errorMessage err) None)"
    and hung: "\<And>x rest v s node s'. I (x # rest) v s \<Longrightarrow> \<not> aborted s \<Longrightarrow> x \<notin> v
        \<Longrightarrow> node \<in> set (nodes w) \<Longrightarrow> node_id node = x
        \<Longrightarrow> executeNode g w node e s = (Hung, s')
        \<Longrightarrow> find (\<lambda>n. node_id n = x) (nodes w) = Some node \<Longrightarrow> Q (Hung, s')"
  shows "Q (runLoop g w e queue visited st)"
proof -
  have "g' = g \<Longrightarrow> w' = w \<Longrightarrow> e' = e \<Longrightarrow> I queue visited st
          \<Longrightarrow> Q (runLoop g' w' e' queue visited st)" for g' w' e'
  proof (induction g' w' e' queue visited st rule: runLoop.induct)
    case (1 g' w' e' visited st)
    then show ?case by (simp add: runLoop.simps empty)
  next
    case (2 g' w' e' nodeId rest visited st)
    note eq = \<open>g' = g\<close> \<open>w' = w\<close> \<open>e' = e\<close>
    note I = \<open>I (nodeId # rest) visited st\<close>
    show ?case
    proof (cases "aborted st")
      case True
      with I show ?thesis by (simp add: runLoop.simps cancel)
    next
      case na: False
      show ?thesis
      proof (cases "nodeId \<in> visited")
        case True
        from "2.IH"(1)[OF na True eq skip[OF I na True]]
        show ?thesis using na True by (simp add: runLoop.simps)
      next
        case nv: False
        show ?thesis
        proof (cases "find (\<lambda>n. node_id n = nodeId) (nodes w)")
          case None
          from "2.IH"(2)[OF na nv None[folded eq] eq missing[OF I na nv None]]
          show ?thesis using na nv None eq by (simp add: runLoop.simps)
        next
          case (Some node)
          note nd = find_node_id[OF Some]
          obtain r s' where ex: "executeNode g w node e st = (r, s')"
            by (cases "executeNode g w node e st")
          show ?thesis
          proof (cases r)
            case Completed
            from step[OF I na nv _ _ ex[unfolded Completed] Some] nd
            have "I (rest @ filter (\<lambda>i. i \<notin> insert nodeId visited) (map node_id (getConnectedNodes w nodeId)))
                    (insert nodeId visited) s'" by simp
            from "2.IH"(3)[OF na nv Some[folded eq] ex[symmetric, folded eq] Completed eq this[folded eq]]
            show ?thesis using na nv Some ex Completed eq by (simp add: runLoop.simps)
          next
            case (Threw err)
            from threw[OF I na nv _ _ ex[unfolded Threw] Some] nd
            show ?thesis using na nv Some ex Threw eq by (simp add: runLoop.simps)
          next
            case Hung
            from hung[OF I na nv _ _ ex[unfolded Hung] Some] nd
            show ?thesis using na nv Some ex Hung eq by (simp add: runLoop.simps)
          qed
        qed
      qed
    qed
  qed
  with init show ?thesis by simp
qed

section \<open>The whole run\<close>

lemma runWorkflow_invalid:
  assumes "validateWorkflow w = Inl err"
  shows "runWorkflow g w env clk =
           Resolved (finish (log (setStatus (initialState w clk) Error) ErrorLevel
                       (sym_boom @ '' Workflow failed: '' @ errorMessage err) None))"
  using assms by (simp add: runWorkflow_def tryBody_def)

lemma validateWorkflow_iff:
  "validateWorkflow w = Inr () \<longleftrightarrow> nodes w \<noteq> [] \<and> starterId w \<in> node_id ` set (nodes w)"
  by (auto simp: validateWorkflow_def find_None_iff split: option.splits dest!: find_node_id intro: rev_image_eqI)

lemma runWorkflow_invalid_notified:
  "validateWorkflow w \<noteq> Inr () \<Longrightarrow> map_promise notified (runWorkflow g w env clk) = Resolved []"
  by (cases "validateWorkflow w") (simp_all add: runWorkflow_invalid finish_def initialState_def newRun_def)

lemma finish_simps [simp]:
  "nodeOutputs (finish st) = nodeOutputs st"
  "aborted (finish st) = aborted st"
  "now (finish st) = now st"
  "invoked (finish st) = invoked st"
  "notified (finish st) = notified st"
  "status (execution (finish st)) = status (execution st)"
  "startTime (execution (finish st)) = startTime (execution st)"
  "endTime (execution (finish st)) = Some (now st)"
  "duration (execution (finish st)) = Some (int (now st) - int (startTime (execution st)))"
  "workflowId (execution (finish st)) = workflowId (execution st)"
  "nodeExecutions (execution (finish st)) = nodeExecutions (execution st)"
  "logs (execution (finish st)) = logs (execution st)"
  by (simp_all add: finish_def now_def)

lemma initialState_simps [simp]:
  "nodeOutputs (initialState w clk) = Map.empty"
  "aborted (initialState w clk) = False"
  "now (initialState w clk) = clk 1"
  "notified (initialState w clk) = []"
  "invoked (initialState w clk) = []"
  "status (execution (initialState w clk)) = Running"
  "startTime (execution (initialState w clk)) = clk 0"
  "nodeExecutions (execution (initialState w clk)) = Map.empty"
  by (simp_all add: initialState_def newRun_def now_def)

lemma validateWorkflow_find:
  "validateWorkflow w = Inr () \<Longrightarrow>
     \<exists>startNode. find (\<lambda>node. node_id node = starterId w) (nodes w) = Some startNode
        \<and> node_id startNode = starterId w"
  by (auto simp: validateWorkflow_def split: if_splits option.splits dest: find_node_id)

text \<open>How a run ends, by the way the loop ended.\<close>

lemma tryBody_valid:
  assumes "validateWorkflow w = Inr ()"
  shows "tryBody g w env st =
     (case runLoop g w env [starterId w] {} st of
        (Completed, st') \<Rightarrow>
          (Completed,
           if status (execution st') \<noteq> Cancelled
           then log (setStatus st' Success) Info (sym_check @ '' Workflow completed'') None
           else st')
      | (Threw err, st') \<Rightarrow> (Threw err, st')
      | (Hung, st') \<Rightarrow> (Hung, st'))"
  using validateWorkflow_find[OF assms] assms by (auto simp: tryBody_def)

lemma runWorkflow_cases:
  assumes "runWorkflow g w env clk = Resolved s"
  obtains (Invalid) err where "validateWorkflow w = Inl err"
      "s = finish (log (setStatus (initialState w clk) Error) ErrorLevel
                     (sym_boom @ '' Workflow failed: '' @ errorMessage err) None)"
    | (Done) st' where "validateWorkflow w = Inr ()"
      "runLoop g w env [starterId w] {} (initialState w clk) = (Completed, st')"
      "s = finish (if status (execution st') \<noteq> Cancelled
                   then log (setStatus st' Success) Info (sym_check @ '' Workflow completed'') None
                   else st')"
    | (Failed) err st' where "validateWorkflow w = Inr ()"
      "runLoop g w env [starterId w] {} (initialState w clk) = (Threw err, st')"
      "s = finish (log (setStatus st' Error) ErrorLevel
                     (sym_boom @ '' Workflow failed: '' @ errorMessage err) None)"
proof (cases "validateWorkflow w")
  case (Inl err)
  with assms Invalid show ?thesis by (simp add: runWorkflow_invalid)
next
  case (Inr u)
  then have v: "validateWorkflow w = Inr ()" by simp
  obtain r st' where rl: "runLoop g w env [starterId w] {} (initialState w clk) = (r, st')"
    by (cases "runLoop g w env [starterId w] {} (initialState w clk)")
  show ?thesis
  proof (cases r)
    case Completed
    with assms v rl Done show ?thesis
      by (simp add: runWorkflow_def tryBody_valid)
  next
    case (Threw err)
    with assms v rl Failed show ?thesis
      by (simp add: runWorkflow_def tryBody_valid)
  next
    case Hung
    with assms v rl show ?thesis
      by (simp add: runWorkflow_def tryBody_valid)
  qed
qed

lemma runWorkflow_resolves:
  assumes "validateWorkflow w = Inr () \<Longrightarrow> fst (runLoop g w env [starterId w] {} (initialState w clk)) \<noteq> Hung"
  shows "\<exists>s. runWorkflow g w env clk = Resolved s"
proof (cases "validateWorkflow w")
  case (Inl err)
  then show ?thesis by (simp add: runWorkflow_invalid)
next
  case (Inr u)
  then have v: "validateWorkflow w = Inr ()" by simp
  with assms show ?thesis
    by (cases "runLoop g w env [starterId w] {} (initialState w clk)")
       (auto simp: runWorkflow_def tryBody_valid split: node_end.splits)
qed

lemma tryBody_notified:
  "notified (snd (tryBody g w env st)) =
     (if validateWorkflow w = Inr () then notified (snd (runLoop g w env [starterId w] {} st))
      else notified st)"
proof (cases "validateWorkflow w")
  case (Inl err)
  then show ?thesis by (simp add: tryBody_def)
next
  case (Inr u)
  then have v: "validateWorkflow w = Inr ()" by simp
  show ?thesis
    by (cases "runLoop g w env [starterId w] {} st")
       (auto simp: tryBody_valid[OF v] v split: node_end.splits)
qed

lemma runWorkflow_notified:
  "runWorkflow g w env clk = Resolved s \<Longrightarrow>
     notified s = notified (snd (tryBody g w env (initialState w clk)))"
  by (cases "tryBody g w env (initialState w clk)")
     (auto simp: runWorkflow_def split: node_end.splits)

section \<open>Settling behaviours and the status of the run\<close>

lemma executeNode_not_Hung:
  "settling g \<Longrightarrow> executeNode g w node e st \<noteq> (Hung, st')"
  by (auto simp: settling_def elim!: executeNode_Hung)

lemma runLoop_not_Hung:
  assumes "settling g"
  shows "fst (runLoop g w e queue visited st) \<noteq> Hung"
  by (rule runLoop_rule[where I = "\<lambda>q v s. True" and Q = "\<lambda>r. fst r \<noteq> Hung"])
     (simp_all add: executeNode_not_Hung[OF assms])

lemma executeNode_status:
  "executeNode g w node e st = (r, st') \<Longrightarrow> status (execution st') = status (execution st)"
  by (cases r) (auto elim!: executeNode_Completed executeNode_Threw executeNode_Hung)

lemma runLoop_status:
  assumes "status (execution st) = Running"
  shows "case runLoop g w e queue visited st of
           (Completed, st') \<Rightarrow> status (execution st') \<in> {Running, Cancelled}
         | (Threw err, st') \<Rightarrow> status (execution st') = Error
         | (Hung, st') \<Rightarrow> True"
  by (rule runLoop_rule[where I = "\<lambda>q v s. status (execution s) = Running"])
     (use assms in \<open>auto dest: executeNode_status\<close>)

lemma settling_exampleBlocks: "settling exampleBlocks"
  by (auto simp: settling_def runOf_def exampleBlocks_def passBlock_def failBlock_def
      stopBlock_def stopFailBlock_def mergeBlock_def textBlock_def echoBlock_def relayBlock_def
      guardBlock_def split: if_splits)

section \<open>Each node is started once\<close>

lemma started_simps [simp]:
  "started [] = []"
  "started (xs @ ys) = started xs @ started ys"
  "started ((i, ne) # xs) = (if ne_status ne = Running then i # started xs else started xs)"
  by (simp_all add: started_def)

lemma record_status_simps [simp]:
  "ne_status (succeededRecord ne0 slot result t) = Success"
  "ne_status (failedRecord ne0 err t) = Error"
  "ne_nodeId (succeededRecord ne0 slot result t) = ne_nodeId ne0"
  "ne_nodeId (failedRecord ne0 err t) = ne_nodeId ne0"
  by (simp_all add: succeededRecord_def failedRecord_def)

lemma executeNode_started:
  "executeNode g w node e st = (r, st') \<Longrightarrow>
     started (notified st') = started (notified st) @ [node_id node]"
  by (cases r) (auto elim!: executeNode_Completed executeNode_Threw executeNode_Hung)

lemma runLoop_started_once:
  assumes "distinct (started (notified st))"
    and "set (started (notified st)) \<subseteq> visited"
    and "set (started (notified st)) \<subseteq> node_id ` set (nodes w)"
  shows "distinct (started (notified (snd (runLoop g w e queue visited st))))
       \<and> set (started (notified (snd (runLoop g w e queue visited st)))) \<subseteq> node_id ` set (nodes w)"
proof (rule runLoop_rule[where
      I = "\<lambda>q v s. distinct (started (notified s)) \<and> set (started (notified s)) \<subseteq> v
             \<and> set (started (notified s)) \<subseteq> node_id ` set (nodes w)"
      and Q = "\<lambda>r. distinct (started (notified (snd r)))
             \<and> set (started (notified (snd r))) \<subseteq> node_id ` set (nodes w)"], goal_cases)
  case 1
  show ?case using assms by simp
next
  case (6 x rest v s node s')
  then show ?case by (auto dest!: executeNode_started)
next
  case (7 x rest v s node err s')
  then show ?case by (auto dest!: executeNode_started)
next
  case (8 x rest v s node s')
  then show ?case by (auto dest!: executeNode_started)
qed auto

section \<open>A node starts after a predecessor\<close>

lemma succeededIn_simps [simp]:
  "succeededIn [] = {}"
  "succeededIn (xs @ ys) = succeededIn xs \<union> succeededIn ys"
  "succeededIn ((i, ne) # xs) = (if ne_status ne = Success then insert i (succeededIn xs) else succeededIn xs)"
  by (auto simp: succeededIn_def)

lemma startsWhen_append:
  "startsWhen ready D (xs @ ys) = (startsWhen ready D xs \<and> startsWhen ready (D \<union> succeededIn xs) ys)"
  by (induction ready D xs rule: startsWhen.induct) simp_all

lemma somePredecessorSucceeded_mono:
  "somePredecessorSucceeded w D n \<Longrightarrow> D \<subseteq> D' \<Longrightarrow> somePredecessorSucceeded w D' n"
  by (auto simp: somePredecessorSucceeded_def)

lemma getConnectedNodes_edge:
  "y \<in> set (map node_id (getConnectedNodes w x)) \<Longrightarrow>
     \<exists>edge \<in> set (edges w). source edge = x \<and> target edge = y"
  by (auto simp: getConnectedNodes_def)

lemma executeNode_notified:
  assumes "executeNode g w node e st = (r, st')"
  shows "case r of
           Completed \<Rightarrow> (\<exists>ne. ne_status ne = Success
               \<and> notified st' = notified st @ [(node_id node, newNodeExecution node st), (node_id node, ne)]
               \<and> nodeExecutions (execution st') = (nodeExecutions (execution st))(node_id node \<mapsto> ne))
         | Threw err \<Rightarrow> (\<exists>ne. ne_status ne = Error
               \<and> notified st' = notified st @ [(node_id node, newNodeExecution node st)]
               \<and> nodeExecutions (execution st') = (nodeExecutions (execution st))(node_id node \<mapsto> ne))
         | Hung \<Rightarrow> notified st' = notified st @ [(node_id node, newNodeExecution node st)]
               \<and> nodeExecutions (execution st') =
                   (nodeExecutions (execution st))(node_id node \<mapsto> newNodeExecution node st)"
proof (cases r)
  case Completed
  with assms show ?thesis
    by (force elim!: executeNode_Completed)
next
  case (Threw err)
  with assms show ?thesis
    by (force elim!: executeNode_Threw)
next
  case Hung
  with assms show ?thesis
    by (auto elim!: executeNode_Hung)
qed

lemma runLoop_startsAfterSomePredecessor:
  assumes "startsWhen (somePredecessorSucceeded w) {} (notified st)"
    and "\<forall>x \<in> set queue. somePredecessorSucceeded w (succeededIn (notified st)) x"
  shows "startsWhen (somePredecessorSucceeded w) {} (notified (snd (runLoop g w e queue visited st)))"
proof (rule runLoop_rule[where
      I = "\<lambda>q v s. startsWhen (somePredecessorSucceeded w) {} (notified s)
             \<and> (\<forall>x \<in> set q. somePredecessorSucceeded w (succeededIn (notified s)) x)"
      and Q = "\<lambda>r. startsWhen (somePredecessorSucceeded w) {} (notified (snd r))"], goal_cases)
  case 1
  show ?case using assms by simp
next
  case (6 x rest v s node s')
  from executeNode_notified[OF 6(6)] obtain ne where ne: "ne_status ne = Success"
    "notified s' = notified s @ [(x, newNodeExecution node s), (x, ne)]"
    using 6(5) by auto
  have "somePredecessorSucceeded w (succeededIn (notified s')) y"
    if "y \<in> set rest" for y
    using 6(1) that ne by (auto intro: somePredecessorSucceeded_mono)
  moreover have "somePredecessorSucceeded w (succeededIn (notified s')) y"
    if "y \<in> set (map node_id (getConnectedNodes w x))" for y
    using getConnectedNodes_edge[OF that] ne by (auto simp: somePredecessorSucceeded_def)
  ultimately show ?case
    using 6(1) ne by (auto simp: startsWhen_append)
next
  case (7 x rest v s node err s')
  from executeNode_notified[OF 7(6)] 7(1,5) show ?case
    by (auto simp: startsWhen_append)
next
  case (8 x rest v s node s')
  from executeNode_notified[OF 8(6)] 8(1,5) show ?case
    by (auto simp: startsWhen_append)
qed auto

lemma wf_join_trace:
  "map_promise statusTrace (runWorkflow exampleBlocks wf_join Map.empty exampleClock)
     = Resolved [(''S'', Running), (''S'', Success), (''A'', Running), (''A'', Success),
                 (''C'', Running), (''C'', Success), (''B'', Running), (''B'', Success)]"
  by code_simp

section \<open>A failure ends the run\<close>

lemma executeNode_Threw_log:
  assumes "executeNode g w node e st = (Threw err, st')"
  shows "\<exists>l \<in> set (logs (execution st')). log_nodeId l = Some (node_id node) \<and> level l = ErrorLevel"
  using assms by (auto elim!: executeNode_Threw)

lemma runLoop_failure:
  assumes "\<forall>x ne. nodeExecutions (execution st) x = Some ne \<longrightarrow> ne_status ne = Success \<and> x \<in> visited"
    and "\<forall>a. nodeExecutions (execution st) a = None \<longrightarrow>
           (\<forall>x. (x \<in> set queue \<or> nodeExecutions (execution st) x \<noteq> None) \<and> x \<noteq> a
                 \<longrightarrow> reachAvoiding w a x)"
  shows "case runLoop g w e queue visited st of
           (Completed, st') \<Rightarrow>
             (\<forall>x ne. nodeExecutions (execution st') x = Some ne \<longrightarrow> ne_status ne = Success)
         | (Threw err, st') \<Rightarrow>
             (\<exists>a. (\<forall>x ne. nodeExecutions (execution st') x = Some ne \<and> x \<noteq> a
                          \<longrightarrow> ne_status ne = Success \<and> reachAvoiding w a x)
                \<and> (\<exists>l \<in> set (logs (execution st')). log_nodeId l = Some a \<and> level l = ErrorLevel))
         | (Hung, st') \<Rightarrow> True"
proof (rule runLoop_rule[where
      I = "\<lambda>q v s. (\<forall>x ne. nodeExecutions (execution s) x = Some ne \<longrightarrow> ne_status ne = Success \<and> x \<in> v)
             \<and> (\<forall>a. nodeExecutions (execution s) a = None \<longrightarrow>
                   (\<forall>x. (x \<in> set q \<or> nodeExecutions (execution s) x \<noteq> None) \<and> x \<noteq> a
                       \<longrightarrow> reachAvoiding w a x))"], goal_cases)
  case 1
  show ?case using assms by simp
next
  case (2 v s)
  then show ?case by simp
next
  case (3 x rest v s)
  then show ?case by simp
next
  case (4 x rest v s)
  then show ?case by simp
next
  case (5 x rest v s)
  then show ?case by auto
next
  case (6 x rest v s node s')
  from executeNode_notified[OF 6(6)] 6(5) obtain ne where ne: "ne_status ne = Success"
    "nodeExecutions (execution s') = (nodeExecutions (execution s))(x \<mapsto> ne)"
    by auto
  from 6(1,3) have none: "nodeExecutions (execution s) x = None"
    by (cases "nodeExecutions (execution s) x") auto
  have reach: "reachAvoiding w a y"
    if a: "nodeExecutions (execution s') a = None"
      and y: "y \<in> set (rest @ filter (\<lambda>i. i \<notin> insert x v) (map node_id (getConnectedNodes w x)))
                \<or> nodeExecutions (execution s') y \<noteq> None" "y \<noteq> a" for a y
  proof -
    from a ne have ax: "a \<noteq> x" and a0: "nodeExecutions (execution s) a = None"
      by (auto split: if_splits)
    from 6(1) a0 ax have rx: "reachAvoiding w a x" by auto
    from y(1) consider "y \<in> set rest" | "y = x" | "nodeExecutions (execution s) y \<noteq> None"
      | "y \<in> set (map node_id (getConnectedNodes w x))"
      using ne by (auto split: if_splits)
    then show ?thesis
    proof cases
      case 1
      with 6(1) a0 y(2) show ?thesis by auto
    next
      case 2
      with rx show ?thesis by simp
    next
      case 3
      with 6(1) a0 y(2) show ?thesis by auto
    next
      case 4
      from getConnectedNodes_edge[OF 4] obtain edge where
        "edge \<in> set (edges w)" "source edge = x" "target edge = y" by auto
      with rx y(2) show ?thesis by (auto intro: reachAvoiding.step)
    qed
  qed
  have "\<forall>y ne'. nodeExecutions (execution s') y = Some ne' \<longrightarrow> ne_status ne' = Success \<and> y \<in> insert x v"
    using 6(1) ne by auto
  with reach show ?case by blast
next
  case (7 x rest v s node err s')
  from executeNode_notified[OF 7(6)] 7(5) obtain ne where ne: "ne_status ne = Error"
    "nodeExecutions (execution s') = (nodeExecutions (execution s))(x \<mapsto> ne)"
    by auto
  from 7(1,3) have none: "nodeExecutions (execution s) x = None"
    by (cases "nodeExecutions (execution s) x") auto
  have "\<forall>y ne'. nodeExecutions (execution s') y = Some ne' \<and> y \<noteq> x
           \<longrightarrow> ne_status ne' = Success \<and> reachAvoiding w x y"
    using 7(1) none ne by auto
  moreover from executeNode_Threw_log[OF 7(6)] 7(5)
  have "\<exists>l \<in> set (logs (execution s')). log_nodeId l = Some x \<and> level l = ErrorLevel" by simp
  ultimately show ?case by auto
next
  case (8 x rest v s node s')
  then show ?case by simp
qed

lemma runLoop_failure_initial:
  "case runLoop g w e [starterId w] {} (initialState w clk) of
     (Completed, st') \<Rightarrow>
       (\<forall>x ne. nodeExecutions (execution st') x = Some ne \<longrightarrow> ne_status ne = Success)
   | (Threw err, st') \<Rightarrow>
       (\<exists>a. (\<forall>x ne. nodeExecutions (execution st') x = Some ne \<and> x \<noteq> a
                    \<longrightarrow> ne_status ne = Success \<and> reachAvoiding w a x)
          \<and> (\<exists>l \<in> set (logs (execution st')). log_nodeId l = Some a \<and> level l = ErrorLevel))
   | (Hung, st') \<Rightarrow> True"
  by (rule runLoop_failure) (auto intro: reachAvoiding.start)

lemma wf_fail_reachAvoiding:
  "reachAvoiding wf_fail ''A'' x \<Longrightarrow> x = ''S'' \<or> x = ''B''"
  by (induction rule: reachAvoiding.induct) (auto simp: wf_fail_def mkEdge_def)

lemma wf_fail_run:
  "map_promise (nodeStatus ''A'') (runWorkflow exampleBlocks wf_fail Map.empty exampleClock) = Resolved (Some Error)"
  by code_simp

section \<open>Stopping the engine\<close>





lemma record_outputs_simps [simp]:
  "ne_outputs (succeededRecord ne0 slot result t) =
     Some (spread slot (if isObjectLike result then asRecord result else [''value'' \<mapsto> result]))"
  by (simp add: succeededRecord_def)






section \<open>What a node publishes\<close>

lemma slotOf_upd: "slotOf (outs(i \<mapsto> slot)) i = slot"
  by (simp add: slotOf_def)

lemma slotOf_None: "outs i = None \<Longrightarrow> slotOf outs i = Map.empty"
  by (simp add: slotOf_def)

lemma fold_applyCall_slot:
  "slotOf (nodeOutputs (fold (applyCall i) cs st)) i = writes cs (slotOf (nodeOutputs st) i)"
proof (induction cs arbitrary: st)
  case Nil
  show ?case by simp
next
  case (Cons c cs)
  show ?case
  proof (cases c)
    case (Log m)
    with Cons[of "log st Info m (Some i)"] show ?thesis by simp
  next
    case (SetNodeOutput k v)
    have "slotOf (nodeOutputs (st\<lparr>nodeOutputs := setNodeOutput i k v (nodeOutputs st)\<rparr>)) i
            = (if k = ''__proto__'' then slotOf (nodeOutputs st) i
               else (slotOf (nodeOutputs st) i)(k \<mapsto> v))"
      by (simp add: setNodeOutput_def slotOf_upd)
    with Cons[of "st\<lparr>nodeOutputs := setNodeOutput i k v (nodeOutputs st)\<rparr>"]
    show ?thesis
      by (simp only: SetNodeOutput fold_simps applyCall.simps writes.simps)
  qed
qed

lemma afterAwait_slot:
  "slotOf (nodeOutputs (afterAwait node c out st)) (node_id node)
     = writes (calls out) (slotOf (nodeOutputs st) (node_id node))"
  by (simp add: afterAwait_def fold_applyCall_slot)

lemma executeNode_outputs_other:
  "executeNode g w node e st = (r, st') \<Longrightarrow> j \<noteq> node_id node \<Longrightarrow> nodeOutputs st' j = nodeOutputs st j"
  by (cases r)
     (auto elim!: executeNode_Completed executeNode_Threw executeNode_Hung
        simp: afterAwait_outputs_other)

text \<open>The history of invocations grows by at most one entry, for the node that is executed.\<close>

lemma executeNode_invoked:
  "executeNode g w node e st = (r, st') \<Longrightarrow>
     invoked st' = invoked st @
       (case runOf g (node_type node) of
          None \<Rightarrow> []
        | Some f \<Rightarrow> [(node_id node, makeContext w node e st)])"
  by (cases r) (auto elim!: executeNode_Completed executeNode_Threw executeNode_Hung)

lemma invocationsOf_cong:
  "invoked s' = invoked s \<Longrightarrow> invocationsOf s' i = invocationsOf s i"
  by (simp add: invocationsOf_def)

lemma executeNode_invocations_other:
  "executeNode g w node e st = (r, st') \<Longrightarrow> j \<noteq> node_id node \<Longrightarrow>
     invocationsOf st' j = invocationsOf st j"
  by (auto dest!: executeNode_invoked simp: invocationsOf_def split: option.splits)

lemma executeNode_published:
  assumes "executeNode g w node e st = (Completed, st')"
    and "nodeOutputs st (node_id node) = None"
  shows "\<exists>f result ne. runOf g (node_type node) = Some f
           \<and> settles (f (makeContext w node e st)) = Returns result
           \<and> invoked st' = invoked st @ [(node_id node, makeContext w node e st)]
           \<and> nodeExecutions (execution st') = (nodeExecutions (execution st))(node_id node \<mapsto> ne)
           \<and> ne_status ne = Success
           \<and> ne_outputs ne = Some (spread (writes (calls (f (makeContext w node e st))) Map.empty)
                (if isObjectLike result then asRecord result else [''value'' \<mapsto> result]))
           \<and> slotOf (nodeOutputs st') (node_id node) =
                (if isObjectLike result
                 then spread (writes (calls (f (makeContext w node e st))) Map.empty) (asRecord result)
                 else writes (calls (f (makeContext w node e st))) Map.empty)"
  using assms(1)
proof (rule executeNode_Completed)
  fix runBlock result
  assume a: "runOf g (node_type node) = Some runBlock"
    "settles (runBlock (makeContext w node e st)) = Returns result"
    "st' = snd (nodeSucceeded node (newNodeExecution node st) result
                  (afterAwait node (makeContext w node e st) (runBlock (makeContext w node e st)) st))"
  let ?out = "runBlock (makeContext w node e st)"
  have slot: "slotOf (nodeOutputs (afterAwait node (makeContext w node e st) ?out st)) (node_id node)
                = writes (calls ?out) Map.empty"
    using assms(2) by (simp add: afterAwait_slot slotOf_None)
  show ?thesis
    apply (intro exI[of _ runBlock] exI[of _ result]
        exI[of _ "succeededRecord (newNodeExecution node st) (writes (calls ?out) Map.empty) result
                    (now (tick st))"])
    using a slot by (simp add: slotOf_upd)
qed

text \<open>What a node did in the run is determined by the final state.\<close>

lemma ranAs_unique:
  assumes "ranAs g w s i cs result" and "ranAs g w s i cs' result'"
  shows "cs' = cs \<and> result' = result"
  using assms by (auto simp: ranAs_def invokedOnceWith_def)

lemma ranAs_cong:
  "invocationsOf s' i = invocationsOf s i \<Longrightarrow> ranAs g w s' i cs result = ranAs g w s i cs result"
  by (simp add: ranAs_def invokedOnceWith_def)

lemma nodePublished_cong:
  "nodeOutputs s' i = nodeOutputs s i \<Longrightarrow> invocationsOf s' i = invocationsOf s i \<Longrightarrow>
     nodePublished g w s' i ne = nodePublished g w s i ne"
  by (simp add: nodePublished_def slotOf_def ranAs_cong[of s' i s])

lemma runLoop_published:
  assumes "\<forall>i. i \<notin> visited \<longrightarrow> nodeOutputs st i = None \<and> nodeExecutions (execution st) i = None
             \<and> invocationsOf st i = []"
    and "\<forall>i ne. nodeExecutions (execution st) i = Some ne \<and> ne_status ne = Success
           \<longrightarrow> nodePublished g w st i ne"
  shows "\<forall>i ne. nodeExecutions (execution (snd (runLoop g w e queue visited st))) i = Some ne
           \<and> ne_status ne = Success
           \<longrightarrow> nodePublished g w (snd (runLoop g w e queue visited st)) i ne"
proof (rule runLoop_rule[where
      I = "\<lambda>q v s. (\<forall>i. i \<notin> v \<longrightarrow> nodeOutputs s i = None \<and> nodeExecutions (execution s) i = None
                         \<and> invocationsOf s i = [])
             \<and> (\<forall>i ne. nodeExecutions (execution s) i = Some ne \<and> ne_status ne = Success
                   \<longrightarrow> nodePublished g w s i ne)"
      and Q = "\<lambda>r. \<forall>i ne. nodeExecutions (execution (snd r)) i = Some ne \<and> ne_status ne = Success
                   \<longrightarrow> nodePublished g w (snd r) i ne"],
    goal_cases)
  case 1
  show ?case using assms by blast
next
  case (2 v s)
  then show ?case by simp
next
  case (3 x rest v s)
  then show ?case
    using nodePublished_cong[of "setStatus s Cancelled" _ s g w] by (simp add: invocationsOf_def)
next
  case (4 x rest v s)
  then show ?case by simp
next
  case (5 x rest v s)
  then show ?case by simp
next
  case (6 x rest v s node s')
  from 6(1,3) have none: "nodeOutputs s (node_id node) = None" "invocationsOf s x = []"
    using 6(5) by simp_all
  from executeNode_published[OF 6(6) none(1)] 6(5) obtain f result ne' where p:
    "runOf g (node_type node) = Some f"
    "settles (f (makeContext w node e s)) = Returns result"
    "invoked s' = invoked s @ [(x, makeContext w node e s)]"
    "nodeExecutions (execution s') = (nodeExecutions (execution s))(x \<mapsto> ne')"
    "ne_status ne' = Success"
    "ne_outputs ne' = Some (spread (writes (calls (f (makeContext w node e s))) Map.empty)
                (if isObjectLike result then asRecord result else [''value'' \<mapsto> result]))"
    "slotOf (nodeOutputs s') x =
                (if isObjectLike result
                 then spread (writes (calls (f (makeContext w node e s))) Map.empty) (asRecord result)
                 else writes (calls (f (makeContext w node e s))) Map.empty)"
    by auto
  have once: "invokedOnceWith s' x (makeContext w node e s)"
    using none(2) p(3) by (simp add: invokedOnceWith_def invocationsOf_def)
  have "ranAs g w s' x (calls (f (makeContext w node e s))) result"
    unfolding ranAs_def using p(1,2) 6(7) once by blast
  then have px: "nodePublished g w s' x ne'"
    unfolding nodePublished_def using p(6,7) by blast
  have other: "nodeOutputs s' j = nodeOutputs s j" "invocationsOf s' j = invocationsOf s j"
    if "j \<noteq> x" for j
    using executeNode_outputs_other[OF 6(6)] executeNode_invocations_other[OF 6(6)] that 6(5)
    by simp_all
  have a: "\<forall>i. i \<notin> insert x v \<longrightarrow> nodeOutputs s' i = None \<and> nodeExecutions (execution s') i = None
             \<and> invocationsOf s' i = []"
    using 6(1) other p(4) by simp
  have b: "nodePublished g w s' i ne"
    if "nodeExecutions (execution s') i = Some ne" "ne_status ne = Success" for i ne
  proof (cases "i = x")
    case True
    with that p(4) px show ?thesis by simp
  next
    case False
    with that p(4) 6(1) have "nodePublished g w s i ne" by simp
    with other[OF False] show ?thesis using nodePublished_cong[of s' i s g w ne] by simp
  qed
  from a b show ?case by blast
next
  case (7 x rest v s node err s')
  from executeNode_notified[OF 7(6)] 7(5) obtain ne' where ne': "ne_status ne' = Error"
    "nodeExecutions (execution s') = (nodeExecutions (execution s))(x \<mapsto> ne')"
    by auto
  have other: "nodeOutputs s' j = nodeOutputs s j" "invocationsOf s' j = invocationsOf s j"
    if "j \<noteq> x" for j
    using executeNode_outputs_other[OF 7(6)] executeNode_invocations_other[OF 7(6)] that 7(5)
    by simp_all
  have "nodePublished g w s' i ne"
    if "nodeExecutions (execution s') i = Some ne" "ne_status ne = Success" for i ne
  proof (cases "i = x")
    case True
    with that ne' show ?thesis by simp
  next
    case False
    with that ne'(2) 7(1) have "nodePublished g w s i ne" by simp
    with other[OF False] show ?thesis using nodePublished_cong[of s' i s g w ne] by simp
  qed
  then show ?case
    using nodePublished_cong[of "log (setStatus s' Error) ErrorLevel
         (sym_cross @ '' Node '' @ [CHR 0x22] @ node_id node @ [CHR 0x22] @ '' failed: '' @ errorMessage err)
         None" _ s' g w]
    by (simp add: invocationsOf_def)
next
  case (8 x rest v s node s')
  from executeNode_notified[OF 8(6)] 8(5) have ne':
    "nodeExecutions (execution s') = (nodeExecutions (execution s))(x \<mapsto> newNodeExecution node s)"
    by auto
  have other: "nodeOutputs s' j = nodeOutputs s j" "invocationsOf s' j = invocationsOf s j"
    if "j \<noteq> x" for j
    using executeNode_outputs_other[OF 8(6)] executeNode_invocations_other[OF 8(6)] that 8(5)
    by simp_all
  have "nodePublished g w s' i ne"
    if "nodeExecutions (execution s') i = Some ne" "ne_status ne = Success" for i ne
  proof (cases "i = x")
    case True
    with that(1) ne' have "ne = newNodeExecution node s" by simp
    with that(2) show ?thesis by simp
  next
    case False
    with that ne' 8(1) have "nodePublished g w s i ne" by simp
    with other[OF False] show ?thesis using nodePublished_cong[of s' i s g w ne] by simp
  qed
  then show ?case by simp
qed

lemma runWorkflow_published:
  assumes "runWorkflow g w env clk = Resolved s"
    and "nodeExecutions (execution s) i = Some ne" and "ne_status ne = Success"
  shows "nodePublished g w s i ne"
  using assms(1)
proof (cases rule: runWorkflow_cases)
  case (Invalid err)
  with assms(2) show ?thesis by simp
next
  case (Done st')
  from runLoop_published[of "{}" "initialState w clk" g w env "[starterId w]"] Done(2)
  have "\<forall>i ne. nodeExecutions (execution st') i = Some ne \<and> ne_status ne = Success
           \<longrightarrow> nodePublished g w st' i ne" by (simp add: invocationsOf_def)
  moreover from Done(3) assms(2) have "nodeExecutions (execution st') i = Some ne"
    by (simp split: if_splits)
  moreover from Done(3) have "nodeOutputs s i = nodeOutputs st' i" "invocationsOf s i = invocationsOf st' i"
    by (simp_all add: invocationsOf_def split: if_splits)
  ultimately show ?thesis using assms(3) nodePublished_cong[of s i st' g w ne] by simp
next
  case (Failed err st')
  from runLoop_published[of "{}" "initialState w clk" g w env "[starterId w]"] Failed(2)
  have "\<forall>i ne. nodeExecutions (execution st') i = Some ne \<and> ne_status ne = Success
           \<longrightarrow> nodePublished g w st' i ne" by (simp add: invocationsOf_def)
  moreover from Failed(3) assms(2) have "nodeExecutions (execution st') i = Some ne"
    by simp
  moreover from Failed(3) have "nodeOutputs s i = nodeOutputs st' i" "invocationsOf s i = invocationsOf st' i"
    by (simp_all add: invocationsOf_def)
  ultimately show ?thesis using assms(3) nodePublished_cong[of s i st' g w ne] by simp
qed

lemma getNodeOutput_slot:
  "i \<noteq> ''*'' \<Longrightarrow> k \<noteq> [] \<Longrightarrow>
     getNodeOutput outs i (Some k) = (case slotOf outs i k of None \<Rightarrow> JUndefined | Some v \<Rightarrow> v)"
  by (simp add: getNodeOutput_def slotOf_def split: option.splits)

section \<open>Runs of the examples\<close>

text \<open>The definitions that the simplifier unfolds to run the engine on an example.\<close>

lemmas eval_defs =
  runWorkflow_def tryBody_def validateWorkflow_def initialState_def finish_def
  runLoop.simps executeNode_def nodeStarted_def nodeSucceeded_def nodeFailed_def
  newNodeExecution_def makeContext_def runOf_def getConnectedNodes_def
  log_def setStatus_def onNodeUpdate_def putNodeExecution_def awaited_def
  now_def tick_def noteInvocation_def newRun_def exampleClock_def
  setNodeOutput_def slotOf_def getNodeOutput_def
  isObjectLike_def spread_def elapsedSince_def Let_def
  exampleBlocks_def passBlock_def failBlock_def stopBlock_def stopFailBlock_def
  mergeBlock_def textBlock_def echoBlock_def relayBlock_def guardBlock_def mkNode_def mkEdge_def
  nodeStatus_def

lemma wf_merge_run:
  "map_promise (nodeStatus ''M'') (runWorkflow exampleBlocks wf_merge Map.empty exampleClock) = Resolved (Some Success)"
  "map_promise (readOutput ''M'' ''a'') (runWorkflow exampleBlocks wf_merge Map.empty exampleClock) = Resolved (JNum 2)"
  "map_promise (readOutput ''M'' ''b'') (runWorkflow exampleBlocks wf_merge Map.empty exampleClock) = Resolved (JNum 3)"
  "map_promise (recordedOutput ''M'' ''a'') (runWorkflow exampleBlocks wf_merge Map.empty exampleClock)
     = Resolved (Some (JNum 2))"
  by (simp_all add: eval_defs wf_merge_def readOutput_def recordedOutput_def)

lemma wf_text_run:
  "map_promise (nodeStatus ''T'') (runWorkflow exampleBlocks wf_text Map.empty exampleClock) = Resolved (Some Success)"
  "map_promise (recordedOutput ''T'' ''value'') (runWorkflow exampleBlocks wf_text Map.empty exampleClock)
     = Resolved (Some (JStr ''hello''))"
  "map_promise (readOutput ''T'' ''value'') (runWorkflow exampleBlocks wf_text Map.empty exampleClock)
     = Resolved JUndefined"
  "map_promise (recordedOutput ''R'' ''got'') (runWorkflow exampleBlocks wf_text Map.empty exampleClock)
     = Resolved (Some JUndefined)"
  by (simp_all add: eval_defs wf_text_def readOutput_def recordedOutput_def)

lemma wf_merge_ranAs:
  assumes "ranAs exampleBlocks wf_merge s ''M'' cs result"
  shows "cs = [SetNodeOutput ''a'' (JNum 1)]" and "result = JObj [''a'' \<mapsto> JNum 2, ''b'' \<mapsto> JNum 3]"
  using assms
  by (auto simp: ranAs_def wf_merge_def mkNode_def runOf_def exampleBlocks_def mergeBlock_def)

lemma wf_text_ranAs:
  assumes "ranAs exampleBlocks wf_text s ''T'' cs result"
  shows "cs = []" and "result = JStr ''hello''"
  using assms
  by (auto simp: ranAs_def wf_text_def mkNode_def runOf_def exampleBlocks_def textBlock_def)

lemma wf_relay_run:
  "map_promise (nodeStatus ''R'') (runWorkflow exampleBlocks wf_relay Map.empty exampleClock)
     = Resolved (Some Success)"
  "map_promise (\<lambda>s. map (\<lambda>c. getNodeOutput (ctx_nodeOutputs c) ''M'' None) (invocationsOf s ''R''))
       (runWorkflow exampleBlocks wf_relay Map.empty exampleClock)
     = Resolved [JObj [''a'' \<mapsto> JNum 2, ''b'' \<mapsto> JNum 3]]"
  by (simp_all add: eval_defs wf_relay_def invocationsOf_def)

lemma wf_relay_ranAs:
  assumes "ranAs exampleBlocks wf_relay s ''R'' cs result"
    and "map (\<lambda>c. getNodeOutput (ctx_nodeOutputs c) ''M'' None) (invocationsOf s ''R'') = [v]"
  shows "cs = []" and "result = v"
  using assms
  by (auto simp: ranAs_def invokedOnceWith_def wf_relay_def mkNode_def runOf_def exampleBlocks_def
      relayBlock_def)

lemma wf_guard_run:
  "map_promise (nodeStatus ''G'') (runWorkflow exampleBlocks wf_guard Map.empty exampleClock)
     = Resolved (Some Success)"
  "map_promise (\<lambda>s. map ctx_aborted (invocationsOf s ''G''))
       (runWorkflow exampleBlocks wf_guard Map.empty exampleClock)
     = Resolved [False]"
  by (simp_all add: eval_defs wf_guard_def invocationsOf_def)

lemma wf_guard_ranAs:
  assumes "ranAs exampleBlocks wf_guard s ''G'' cs result"
    and "map ctx_aborted (invocationsOf s ''G'') = [False]"
  shows "cs = []" and "result = JStr ''hello''"
  using assms
  by (auto simp: ranAs_def invokedOnceWith_def wf_guard_def mkNode_def runOf_def exampleBlocks_def
      guardBlock_def)

section \<open>Observers that return normally\<close>

text \<open>
  With observers that return normally, or without observers, the engine with
  observers does what the engine of the first sections does.
\<close>

lemma log_obs_returning:
  "returning obs \<Longrightarrow> log_obs obs st l m n = (None, log st l m n)"
  by (auto simp: returning_def log_obs_def split: option.splits)

lemma onNodeUpdate_obs_returning:
  "returning obs \<Longrightarrow> onNodeUpdate_obs obs st i ne = (None, onNodeUpdate st i ne)"
  by (auto simp: returning_def onNodeUpdate_obs_def split: option.splits)

lemma nodeFailed_obs_returning:
  "returning obs \<Longrightarrow> nodeFailed_obs obs ne0 err st = nodeFailed ne0 err st"
  by (simp add: nodeFailed_obs_def nodeFailed_def log_obs_returning Let_def)

lemma nodeSucceeded_obs_returning:
  "returning obs \<Longrightarrow> nodeSucceeded_obs obs node ne0 result st = nodeSucceeded node ne0 result st"
  by (simp add: nodeSucceeded_obs_def nodeSucceeded_def log_obs_returning onNodeUpdate_obs_returning
      Let_def)

lemma executeNode_obs_returning:
  "returning obs \<Longrightarrow> executeNode_obs obs g w node e st = executeNode g w node e st"
  by (simp add: executeNode_obs_def executeNode_def nodeStarted_def log_obs_returning
      onNodeUpdate_obs_returning nodeFailed_obs_returning nodeSucceeded_obs_returning Let_def
      split: option.splits settled.splits)

lemma runLoop_obs_returning:
  assumes "returning obs"
  shows "runLoop_obs obs g w e queue visited st = runLoop g w e queue visited st"
proof (induction g w e queue visited st rule: runLoop.induct)
  case (1 g w e visited st)
  show ?case by (simp add: runLoop.simps runLoop_obs.simps)
next
  case (2 g w e nodeId rest visited st)
  show ?case
  proof (cases "aborted st")
    case True
    then show ?thesis by (simp add: runLoop.simps runLoop_obs.simps)
  next
    case na: False
    show ?thesis
    proof (cases "nodeId \<in> visited")
      case True
      with na "2.IH"(1) show ?thesis by (simp add: runLoop.simps runLoop_obs.simps)
    next
      case nv: False
      show ?thesis
      proof (cases "find (\<lambda>n. node_id n = nodeId) (nodes w)")
        case None
        with na nv "2.IH"(2) show ?thesis by (simp add: runLoop.simps runLoop_obs.simps)
      next
        case (Some node)
        obtain r s' where ex: "executeNode g w node e st = (r, s')"
          by (cases "executeNode g w node e st")
        show ?thesis
        proof (cases r)
          case Completed
          with "2.IH"(3)[OF na nv Some ex[symmetric]] na nv Some ex show ?thesis
            by (simp add: runLoop.simps runLoop_obs.simps executeNode_obs_returning[OF assms])
        next
          case (Threw err)
          with na nv Some ex show ?thesis
            by (simp add: runLoop.simps runLoop_obs.simps executeNode_obs_returning[OF assms]
                log_obs_returning[OF assms])
        next
          case Hung
          with na nv Some ex show ?thesis
            by (simp add: runLoop.simps runLoop_obs.simps executeNode_obs_returning[OF assms])
        qed
      qed
    qed
  qed
qed

lemma tryBody_obs_returning:
  "returning obs \<Longrightarrow> tryBody_obs obs g w env st = tryBody g w env st"
  by (auto simp: tryBody_obs_def tryBody_def runLoop_obs_returning log_obs_returning
      split: sum.splits option.splits prod.splits node_end.splits)

lemma runWorkflow_obs_returning:
  "returning obs \<Longrightarrow> runWorkflow_obs obs g w env clk = runWorkflow g w env clk"
  by (auto simp: runWorkflow_obs_def runWorkflow_def tryBody_obs_returning log_obs_returning
      initialState_def split: prod.splits node_end.splits)


lemma returning_noObservers: "returning noObservers"
  by (simp add: returning_def noObservers_def)

lemma returning_quietObservers: "returning quietObservers"
  by (simp add: returning_def quietObservers_def)

section \<open>Observers that throw\<close>

text \<open>
  What holds of the engine whatever the observers do: a node execution ends, a run
  in which every behaviour settles is not left pending, a record that is returned
  is complete, and a rejection comes from the \<^verbatim>\<open>onLog\<close> observer.
\<close>

lemma snd_log_obs [simp]: "snd (log_obs obs st l m n) = log st l m n"
  by (simp add: log_obs_def)












section \<open>Claims\<close>

subsection \<open>Claim C1\<close>

text \<open>
  Claim C1, as amended. The engine walks the graph breadth-first from the starter and
  runs one node at a time; it keeps no count of the predecessors of a node. What holds
  is: in every run that resolves, whenever a node other than the starter begins to
  execute, at least one node with an edge into it has reached \<open>Success\<close> before.
\<close>

theorem node_starts_after_some_predecessor:
  assumes "runWorkflow g w env clk = Resolved s"
  shows "startsAfterSomePredecessor w s"
  using assms unfolding startsAfterSomePredecessor_def
proof (cases rule: runWorkflow_cases)
  case (Invalid err)
  then show "startsWhen (somePredecessorSucceeded w) {} (notified s)" by simp
next
  case (Done st')
  with runLoop_startsAfterSomePredecessor[of w "initialState w clk" "[starterId w]" g env "{}"]
  show "startsWhen (somePredecessorSucceeded w) {} (notified s)"
    by (simp add: somePredecessorSucceeded_def)
next
  case (Failed err st')
  with runLoop_startsAfterSomePredecessor[of w "initialState w clk" "[starterId w]" g env "{}"]
  show "startsWhen (somePredecessorSucceeded w) {} (notified s)"
    by (simp add: somePredecessorSucceeded_def)
qed

theorem node_starts_after_some_predecessor_witness:
  "map_promise statusTrace (runWorkflow exampleBlocks wf_join Map.empty exampleClock)
     = Resolved [(''S'', Running), (''S'', Success), (''A'', Running), (''A'', Success),
                 (''C'', Running), (''C'', Success), (''B'', Running), (''B'', Success)]
   \<and> map_promise (startsAfterSomePredecessor wf_join) (runWorkflow exampleBlocks wf_join Map.empty exampleClock)
     = Resolved True"
proof -
  obtain s where s: "runWorkflow exampleBlocks wf_join Map.empty exampleClock = Resolved s"
    using runWorkflow_resolves[of wf_join exampleBlocks Map.empty exampleClock]
      runLoop_not_Hung[OF settling_exampleBlocks] by blast
  from node_starts_after_some_predecessor[OF s] s wf_join_trace show ?thesis by simp
qed

text \<open>
  Claim C1 as stated fails on an acyclic graph. With the edges \<open>S \<rightarrow> A\<close>, \<open>A \<rightarrow> B\<close>,
  \<open>B \<rightarrow> C\<close> and \<open>S \<rightarrow> C\<close>, the join node \<open>C\<close> is enqueued by \<open>S\<close> and starts
  after \<open>A\<close>, before its predecessor \<open>B\<close> has started.
\<close>

theorem join_starts_before_predecessor_counterexample:
  "map_promise (startsAfterAllPredecessors wf_join) (runWorkflow exampleBlocks wf_join Map.empty exampleClock)
     = Resolved False"
  by code_simp

subsection \<open>Claim C2\<close>

text \<open>
  Claim C2, as amended. The claim says that validation rejects a cycle reachable from
  the starter and an edge to an unknown node. \<^verbatim>\<open>validateWorkflow\<close> never reads
  the edges: its result is the same for every list of edges, and it accepts exactly
  the workflows with a non-empty node list in which some node has the starter
  identifier. What holds of the claim is its last part: when validation does fail,
  no node is started.
\<close>

theorem validation_checks_only_nodes_and_starter:
  "validateWorkflow (w\<lparr>edges := es\<rparr>) = validateWorkflow w
   \<and> (validateWorkflow w = Inr () \<longleftrightarrow> nodes w \<noteq> [] \<and> starterId w \<in> node_id ` set (nodes w))
   \<and> (validateWorkflow w \<noteq> Inr () \<longrightarrow> map_promise notified (runWorkflow g w env clk) = Resolved [])"
  using validateWorkflow_iff[of w] runWorkflow_invalid_notified[of w g env clk]
  by (simp add: validateWorkflow_def)

theorem validation_checks_only_nodes_and_starter_witness:
  "validateWorkflow (wf_nostart\<lparr>edges := [mkEdge ''A'' ''A'']\<rparr>) = Inl (JsError ''Start node not found'')
   \<and> validateWorkflow wf_nostart \<noteq> Inr ()
   \<and> map_promise notified (runWorkflow exampleBlocks wf_nostart Map.empty exampleClock) = Resolved []"
  using validation_checks_only_nodes_and_starter[where w = wf_nostart and es = "[mkEdge ''A'' ''A'']"
      and g = exampleBlocks and env = Map.empty and clk = exampleClock]
  by (simp add: validateWorkflow_def wf_nostart_def mkNode_def)

text \<open>
  Claim C2 as stated fails: the graph with the edges \<open>A \<rightarrow> B\<close> and \<open>B \<rightarrow> A\<close> and the
  starter \<open>A\<close> passes validation and both nodes run; a graph with an edge to the
  unknown node \<open>Z\<close> passes validation and the run succeeds.
\<close>

theorem cycle_passes_validation_counterexample:
  "validateWorkflow wf_cycle = Inr ()
   \<and> map_promise statusTrace (runWorkflow exampleBlocks wf_cycle Map.empty exampleClock)
       = Resolved [(''A'', Running), (''A'', Success), (''B'', Running), (''B'', Success)]
   \<and> validateWorkflow wf_dangling = Inr ()
   \<and> map_promise status (executeWorkflow exampleBlocks wf_dangling Map.empty exampleClock) = Resolved Success"
  by code_simp

subsection \<open>Claim C3\<close>

text \<open>
  Claim C3, as amended. The claim says that a failed validation is thrown to the
  caller and that no execution record is created. In the code the record exists
  before \<^verbatim>\<open>validateWorkflow\<close> is called, inside the outer \<^verbatim>\<open>try\<close>, and the
  outer \<^verbatim>\<open>catch\<close> handles the error. So: whenever validation fails, and the
  observers return normally, the promise resolves to a record with status \<open>Error\<close>,
  two log entries (the start and the failure with the validation message) and no
  node execution, and the observer is never told of a node. The end time is set, to
  the reading of the clock that follows the one of the start time, and the duration
  is their difference.
\<close>

theorem validation_failure_resolves_error_record:
  assumes "validateWorkflow w = Inl err" and "returning obs"
  shows "executeWorkflow_obs obs g w env clk =
           Resolved \<lparr>workflowId = workflow_id w, status = Error, startTime = clk 0,
                     endTime = Some (clk 1), duration = Some (int (clk 1) - int (clk 0)),
                     logs = [\<lparr>log_nodeId = None,
                              message = sym_rocket @ '' Starting workflow: '' @ workflow_name w,
                              level = Info\<rparr>,
                             \<lparr>log_nodeId = None,
                              message = sym_boom @ '' Workflow failed: '' @ errorMessage err,
                              level = ErrorLevel\<rparr>],
                     nodeExecutions = Map.empty\<rparr>
         \<and> map_promise notified (runWorkflow_obs obs g w env clk) = Resolved []"
  by (simp add: executeWorkflow_obs_def runWorkflow_obs_returning[OF assms(2)]
      runWorkflow_invalid[OF assms(1)] finish_def initialState_def newRun_def now_def log_def
      setStatus_def)

theorem validation_failure_resolves_error_record_witness:
  "validateWorkflow wf_nostart = Inl (JsError ''Start node not found'') \<and> returning quietObservers
   \<and> map_promise status (executeWorkflow_obs quietObservers exampleBlocks wf_nostart Map.empty exampleClock)
       = Resolved Error
   \<and> map_promise startTime (executeWorkflow_obs quietObservers exampleBlocks wf_nostart Map.empty exampleClock)
       = Resolved 1000
   \<and> map_promise endTime (executeWorkflow_obs quietObservers exampleBlocks wf_nostart Map.empty exampleClock)
       = Resolved (Some 1001)
   \<and> map_promise duration (executeWorkflow_obs quietObservers exampleBlocks wf_nostart Map.empty exampleClock)
       = Resolved (Some 1)
   \<and> map_promise notified (runWorkflow_obs quietObservers exampleBlocks wf_nostart Map.empty exampleClock)
       = Resolved []"
proof -
  have v: "validateWorkflow wf_nostart = Inl (JsError ''Start node not found'')"
    by (simp add: validateWorkflow_def wf_nostart_def mkNode_def)
  from validation_failure_resolves_error_record[OF v returning_quietObservers,
      of exampleBlocks Map.empty exampleClock] v returning_quietObservers
  show ?thesis
    by (simp add: exampleClock_def)
qed

text \<open>
  Claim C3 as stated fails: with a starter identifier that matches no node, validation
  fails, and the promise of \<^verbatim>\<open>startWorkflow\<close> is not rejected but resolved, to a
  record whose status is \<open>Error\<close>.
\<close>

theorem validation_failure_not_thrown_counterexample:
  "validateWorkflow wf_nostart = Inl (JsError ''Start node not found'')
   \<and> \<not> isRejected (startWorkflow exampleBlocks wf_nostart Map.empty exampleClock)
   \<and> map_promise status (startWorkflow exampleBlocks wf_nostart Map.empty exampleClock) = Resolved Error"
  by (simp add: startWorkflow_def executeWorkflow_def runWorkflow_def tryBody_def validateWorkflow_def
      wf_nostart_def mkNode_def finish_def)

subsection \<open>Claim C4\<close>

text \<open>
  Claim C4. In every run that resolves, the behaviour of a node \<open>i\<close> whose record
  has status \<open>Success\<close> was invoked exactly once; and if on that invocation it made
  the context calls \<open>cs\<close> and returned an object-like \<open>result\<close>, then the final
  registry slot of \<open>i\<close>, and the outputs in its record, are the values written by
  \<^verbatim>\<open>setNodeOutput\<close> overlaid with the properties of \<open>result\<close>: under each key the
  returned value if there is one, otherwise the written one.
\<close>

theorem returned_record_merged_into_slot:
  assumes "runWorkflow g w env clk = Resolved s"
    and "nodeExecutions (execution s) i = Some ne" and "ne_status ne = Success"
  shows "(\<exists>cs result. ranAs g w s i cs result)
       \<and> (\<forall>cs result. ranAs g w s i cs result \<and> isObjectLike result \<longrightarrow>
               slotOf (nodeOutputs s) i = spread (writes cs Map.empty) (asRecord result)
             \<and> ne_outputs ne = Some (spread (writes cs Map.empty) (asRecord result))
             \<and> (\<forall>k. slotOf (nodeOutputs s) i k =
                   (case asRecord result k of Some v \<Rightarrow> Some v | None \<Rightarrow> writes cs Map.empty k)))"
proof -
  from runWorkflow_published[OF assms] obtain cs0 result0 where
    p: "ranAs g w s i cs0 result0"
    and o: "ne_outputs ne = Some (spread (writes cs0 Map.empty)
             (if isObjectLike result0 then asRecord result0 else [''value'' \<mapsto> result0]))"
    and sl: "slotOf (nodeOutputs s) i =
             (if isObjectLike result0 then spread (writes cs0 Map.empty) (asRecord result0)
              else writes cs0 Map.empty)"
    unfolding nodePublished_def by blast
  have "slotOf (nodeOutputs s) i = spread (writes cs Map.empty) (asRecord result)
        \<and> ne_outputs ne = Some (spread (writes cs Map.empty) (asRecord result))
        \<and> (\<forall>k. slotOf (nodeOutputs s) i k =
              (case asRecord result k of Some v \<Rightarrow> Some v | None \<Rightarrow> writes cs Map.empty k))"
    if "ranAs g w s i cs result" "isObjectLike result" for cs result
  proof -
    from ranAs_unique[OF that(1) p] have "cs0 = cs" "result0 = result" by simp_all
    with o sl that(2) show ?thesis by (simp add: spread_def map_add_def)
  qed
  with p show ?thesis by blast
qed

theorem returned_record_merged_into_slot_witness:
  "(\<exists>s ne. runWorkflow exampleBlocks wf_merge Map.empty exampleClock = Resolved s
      \<and> nodeExecutions (execution s) ''M'' = Some ne \<and> ne_status ne = Success
      \<and> ranAs exampleBlocks wf_merge s ''M'' [SetNodeOutput ''a'' (JNum 1)]
           (JObj [''a'' \<mapsto> JNum 2, ''b'' \<mapsto> JNum 3])
      \<and> isObjectLike (JObj [''a'' \<mapsto> JNum 2, ''b'' \<mapsto> JNum 3])
      \<and> slotOf (nodeOutputs s) ''M'' = [''a'' \<mapsto> JNum 2, ''b'' \<mapsto> JNum 3]
      \<and> ne_outputs ne = Some [''a'' \<mapsto> JNum 2, ''b'' \<mapsto> JNum 3]
      \<and> readOutput ''M'' ''a'' s = JNum 2 \<and> readOutput ''M'' ''b'' s = JNum 3)
   \<and> (\<exists>s ne. runWorkflow exampleBlocks wf_relay Map.empty exampleClock = Resolved s
      \<and> nodeExecutions (execution s) ''R'' = Some ne \<and> ne_status ne = Success
      \<and> ranAs exampleBlocks wf_relay s ''R'' [] (JObj [''a'' \<mapsto> JNum 2, ''b'' \<mapsto> JNum 3])
      \<and> slotOf (nodeOutputs s) ''R'' = [''a'' \<mapsto> JNum 2, ''b'' \<mapsto> JNum 3]
      \<and> ne_outputs ne = Some [''a'' \<mapsto> JNum 2, ''b'' \<mapsto> JNum 3])"
proof -
  have o: "isObjectLike (JObj [''a'' \<mapsto> JNum 2, ''b'' \<mapsto> JNum 3])"
    by (simp add: isObjectLike_def)
  have 1: "\<exists>s ne. runWorkflow exampleBlocks wf_merge Map.empty exampleClock = Resolved s
      \<and> nodeExecutions (execution s) ''M'' = Some ne \<and> ne_status ne = Success
      \<and> ranAs exampleBlocks wf_merge s ''M'' [SetNodeOutput ''a'' (JNum 1)]
           (JObj [''a'' \<mapsto> JNum 2, ''b'' \<mapsto> JNum 3])
      \<and> isObjectLike (JObj [''a'' \<mapsto> JNum 2, ''b'' \<mapsto> JNum 3])
      \<and> slotOf (nodeOutputs s) ''M'' = [''a'' \<mapsto> JNum 2, ''b'' \<mapsto> JNum 3]
      \<and> ne_outputs ne = Some [''a'' \<mapsto> JNum 2, ''b'' \<mapsto> JNum 3]
      \<and> readOutput ''M'' ''a'' s = JNum 2 \<and> readOutput ''M'' ''b'' s = JNum 3"
  proof -
    obtain s where s: "runWorkflow exampleBlocks wf_merge Map.empty exampleClock = Resolved s"
      using runWorkflow_resolves[of wf_merge exampleBlocks Map.empty exampleClock]
        runLoop_not_Hung[OF settling_exampleBlocks] by blast
    with wf_merge_run(1) obtain ne where ne: "nodeExecutions (execution s) ''M'' = Some ne"
      "ne_status ne = Success"
      by (auto simp: nodeStatus_def)
    note main = returned_record_merged_into_slot[OF s ne]
    from main obtain cs result where p: "ranAs exampleBlocks wf_merge s ''M'' cs result"
      by blast
    note c = wf_merge_ranAs[OF p]
    from main p o c have m:
      "slotOf (nodeOutputs s) ''M'' = spread (writes cs Map.empty) (asRecord result)"
      "ne_outputs ne = Some (spread (writes cs Map.empty) (asRecord result))"
      by blast+
    have "spread (writes cs Map.empty) (asRecord result) = [''a'' \<mapsto> JNum 2, ''b'' \<mapsto> JNum 3]"
      by (simp add: c spread_def)
    with m have "slotOf (nodeOutputs s) ''M'' = [''a'' \<mapsto> JNum 2, ''b'' \<mapsto> JNum 3]"
      "ne_outputs ne = Some [''a'' \<mapsto> JNum 2, ''b'' \<mapsto> JNum 3]"
      by simp_all
    with s ne o p c wf_merge_run(2,3) show ?thesis by simp
  qed
  have 2: "\<exists>s ne. runWorkflow exampleBlocks wf_relay Map.empty exampleClock = Resolved s
      \<and> nodeExecutions (execution s) ''R'' = Some ne \<and> ne_status ne = Success
      \<and> ranAs exampleBlocks wf_relay s ''R'' [] (JObj [''a'' \<mapsto> JNum 2, ''b'' \<mapsto> JNum 3])
      \<and> slotOf (nodeOutputs s) ''R'' = [''a'' \<mapsto> JNum 2, ''b'' \<mapsto> JNum 3]
      \<and> ne_outputs ne = Some [''a'' \<mapsto> JNum 2, ''b'' \<mapsto> JNum 3]"
  proof -
    obtain s where s: "runWorkflow exampleBlocks wf_relay Map.empty exampleClock = Resolved s"
      using runWorkflow_resolves[of wf_relay exampleBlocks Map.empty exampleClock]
        runLoop_not_Hung[OF settling_exampleBlocks] by blast
    with wf_relay_run(1) obtain ne where ne: "nodeExecutions (execution s) ''R'' = Some ne"
      "ne_status ne = Success"
      by (auto simp: nodeStatus_def)
    from s wf_relay_run(2) have r: "map (\<lambda>c. getNodeOutput (ctx_nodeOutputs c) ''M'' None)
        (invocationsOf s ''R'') = [JObj [''a'' \<mapsto> JNum 2, ''b'' \<mapsto> JNum 3]]"
      by simp
    note main = returned_record_merged_into_slot[OF s ne]
    from main obtain cs result where p: "ranAs exampleBlocks wf_relay s ''R'' cs result"
      by blast
    note c = wf_relay_ranAs[OF p r]
    from main p o c have m:
      "slotOf (nodeOutputs s) ''R'' = spread (writes cs Map.empty) (asRecord result)"
      "ne_outputs ne = Some (spread (writes cs Map.empty) (asRecord result))"
      by blast+
    have "spread (writes cs Map.empty) (asRecord result) = [''a'' \<mapsto> JNum 2, ''b'' \<mapsto> JNum 3]"
      by (simp add: c spread_def)
    with m have "slotOf (nodeOutputs s) ''R'' = [''a'' \<mapsto> JNum 2, ''b'' \<mapsto> JNum 3]"
      "ne_outputs ne = Some [''a'' \<mapsto> JNum 2, ''b'' \<mapsto> JNum 3]"
      by simp_all
    with s ne p c show ?thesis by simp
  qed
  from 1 2 show ?thesis by blast
qed

subsection \<open>Claim C5\<close>

text \<open>
  Claim C5. If the record of a node \<open>a\<close> in the final execution has status
  \<open>Error\<close>, then the status of the run is \<open>Error\<close>, the log has an entry of level
  error that carries the identifier of \<open>a\<close>, and no node other than \<open>a\<close> that can
  only be reached through \<open>a\<close> has a node execution: it was never started.
\<close>

theorem failed_node_stops_run:
  assumes "runWorkflow g w env clk = Resolved s"
    and "nodeExecutions (execution s) a = Some ne" and "ne_status ne = Error"
  shows "status (execution s) = Error
       \<and> (\<exists>l \<in> set (logs (execution s)). log_nodeId l = Some a \<and> level l = ErrorLevel)
       \<and> (\<forall>x. x \<noteq> a \<and> \<not> reachAvoiding w a x \<longrightarrow> nodeExecutions (execution s) x = None)"
  using assms(1)
proof (cases rule: runWorkflow_cases)
  case (Invalid err)
  with assms(2) show ?thesis by simp
next
  case (Done st')
  from runLoop_failure_initial[where g = g and w = w and e = env and clk = clk] Done(2)
  have "\<forall>x ne. nodeExecutions (execution st') x = Some ne \<longrightarrow> ne_status ne = Success" by simp
  moreover from Done(3) assms(2) have "nodeExecutions (execution st') a = Some ne"
    by (simp split: if_splits)
  ultimately show ?thesis using assms(3) by auto
next
  case (Failed err st')
  from runLoop_failure_initial[where g = g and w = w and e = env and clk = clk] Failed(2)
  obtain b where b: "\<forall>x ne. nodeExecutions (execution st') x = Some ne \<and> x \<noteq> b
                          \<longrightarrow> ne_status ne = Success \<and> reachAvoiding w b x"
    "\<exists>l \<in> set (logs (execution st')). log_nodeId l = Some b \<and> level l = ErrorLevel"
    by auto
  from Failed assms(2) have ne: "nodeExecutions (execution st') a = Some ne" by simp
  have ab: "a = b"
  proof (rule ccontr)
    assume "a \<noteq> b"
    with b(1) ne have "ne_status ne = Success" by blast
    with assms(3) show False by simp
  qed
  have "nodeExecutions (execution s) x = None" if "x \<noteq> a" "\<not> reachAvoiding w a x" for x
    using b(1) ab that Failed(3) by (cases "nodeExecutions (execution st') x") auto
  with b(2) ab Failed(3) show ?thesis by auto
qed

theorem failed_node_stops_run_witness:
  "map_promise (nodeStatus ''A'') (runWorkflow exampleBlocks wf_fail Map.empty exampleClock) = Resolved (Some Error)
   \<and> ''X'' \<noteq> ''A'' \<and> \<not> reachAvoiding wf_fail ''A'' ''X''
   \<and> map_promise (nodeStatus ''X'') (runWorkflow exampleBlocks wf_fail Map.empty exampleClock) = Resolved None
   \<and> map_promise status (executeWorkflow exampleBlocks wf_fail Map.empty exampleClock) = Resolved Error"
proof -
  obtain s where s: "runWorkflow exampleBlocks wf_fail Map.empty exampleClock = Resolved s"
    using runWorkflow_resolves[of wf_fail exampleBlocks Map.empty exampleClock]
      runLoop_not_Hung[OF settling_exampleBlocks] by blast
  with wf_fail_run obtain ne where ne: "nodeExecutions (execution s) ''A'' = Some ne"
    "ne_status ne = Error"
    by (auto simp: nodeStatus_def)
  have nx: "\<not> reachAvoiding wf_fail ''A'' ''X''"
    using wf_fail_reachAvoiding[of "''X''"] by auto
  from failed_node_stops_run[OF s ne] nx
  have "status (execution s) = Error" "nodeExecutions (execution s) ''X'' = None" by auto
  with s wf_fail_run nx show ?thesis
    by (simp add: nodeStatus_def executeWorkflow_def)
qed

subsection \<open>Claim C6\<close>




subsection \<open>Claim C7\<close>

text \<open>
  Claim C7, as amended. In every run that resolves, the behaviour of a node \<open>i\<close>
  whose record has status \<open>Success\<close> was invoked exactly once; and if on that
  invocation it made the context calls \<open>cs\<close> and returned a \<open>result\<close> that is not
  object-like, then the result is stored under the key \<open>value\<close> in the outputs
  recorded for the node only. The registry slot is written only for object-like
  results (line 165), so it holds just what the node wrote with
  \<^verbatim>\<open>setNodeOutput\<close>, and a later \<^verbatim>\<open>getNodeOutput(i, 'value')\<close> returns what the
  node itself wrote under \<open>value\<close>, or \<^verbatim>\<open>undefined\<close> (for a node that did not
  write under \<^verbatim>\<open>__proto__\<close>, which would change what the slot inherits).
\<close>

theorem plain_result_recorded_not_published:
  assumes "runWorkflow g w env clk = Resolved s"
    and "nodeExecutions (execution s) i = Some ne" and "ne_status ne = Success"
  shows "(\<exists>cs result. ranAs g w s i cs result)
       \<and> (\<forall>cs result. ranAs g w s i cs result \<and> \<not> isObjectLike result \<longrightarrow>
               ne_outputs ne = Some ((writes cs Map.empty)(''value'' \<mapsto> result))
             \<and> slotOf (nodeOutputs s) i = writes cs Map.empty
             \<and> (i \<noteq> ''*'' \<and> \<not> writesProto cs \<longrightarrow> readOutput i ''value'' s =
                   (case writes cs Map.empty ''value'' of None \<Rightarrow> JUndefined | Some v \<Rightarrow> v)))"
proof -
  from runWorkflow_published[OF assms] obtain cs0 result0 where
    p: "ranAs g w s i cs0 result0"
    and o: "ne_outputs ne = Some (spread (writes cs0 Map.empty)
             (if isObjectLike result0 then asRecord result0 else [''value'' \<mapsto> result0]))"
    and sl: "slotOf (nodeOutputs s) i =
             (if isObjectLike result0 then spread (writes cs0 Map.empty) (asRecord result0)
              else writes cs0 Map.empty)"
    unfolding nodePublished_def by blast
  have "ne_outputs ne = Some ((writes cs Map.empty)(''value'' \<mapsto> result))
        \<and> slotOf (nodeOutputs s) i = writes cs Map.empty
        \<and> (i \<noteq> ''*'' \<and> \<not> writesProto cs \<longrightarrow> readOutput i ''value'' s =
              (case writes cs Map.empty ''value'' of None \<Rightarrow> JUndefined | Some v \<Rightarrow> v))"
    if "ranAs g w s i cs result" "\<not> isObjectLike result" for cs result
  proof -
    from ranAs_unique[OF that(1) p] have "cs0 = cs" "result0 = result" by simp_all
    with o sl that(2) show ?thesis by (simp add: spread_def readOutput_def getNodeOutput_slot)
  qed
  with p show ?thesis by blast
qed

theorem plain_result_recorded_not_published_witness:
  "(\<exists>s ne. runWorkflow exampleBlocks wf_text Map.empty exampleClock = Resolved s
      \<and> nodeExecutions (execution s) ''T'' = Some ne \<and> ne_status ne = Success
      \<and> ranAs exampleBlocks wf_text s ''T'' [] (JStr ''hello'')
      \<and> \<not> isObjectLike (JStr ''hello'') \<and> ''T'' \<noteq> ''*'' \<and> \<not> writesProto []
      \<and> ne_outputs ne = Some [''value'' \<mapsto> JStr ''hello'']
      \<and> slotOf (nodeOutputs s) ''T'' = Map.empty
      \<and> readOutput ''T'' ''value'' s = JUndefined)
   \<and> (\<exists>s ne. runWorkflow exampleBlocks wf_guard Map.empty exampleClock = Resolved s
      \<and> nodeExecutions (execution s) ''G'' = Some ne \<and> ne_status ne = Success
      \<and> ranAs exampleBlocks wf_guard s ''G'' [] (JStr ''hello'')
      \<and> ne_outputs ne = Some [''value'' \<mapsto> JStr ''hello'']
      \<and> slotOf (nodeOutputs s) ''G'' = Map.empty
      \<and> readOutput ''G'' ''value'' s = JUndefined)"
proof -
  have o: "\<not> isObjectLike (JStr ''hello'')" "\<not> writesProto []"
    by (simp_all add: isObjectLike_def writesProto_def)
  have 1: "\<exists>s ne. runWorkflow exampleBlocks wf_text Map.empty exampleClock = Resolved s
      \<and> nodeExecutions (execution s) ''T'' = Some ne \<and> ne_status ne = Success
      \<and> ranAs exampleBlocks wf_text s ''T'' [] (JStr ''hello'')
      \<and> \<not> isObjectLike (JStr ''hello'') \<and> ''T'' \<noteq> ''*'' \<and> \<not> writesProto []
      \<and> ne_outputs ne = Some [''value'' \<mapsto> JStr ''hello'']
      \<and> slotOf (nodeOutputs s) ''T'' = Map.empty
      \<and> readOutput ''T'' ''value'' s = JUndefined"
  proof -
    obtain s where s: "runWorkflow exampleBlocks wf_text Map.empty exampleClock = Resolved s"
      using runWorkflow_resolves[of wf_text exampleBlocks Map.empty exampleClock]
        runLoop_not_Hung[OF settling_exampleBlocks] by blast
    with wf_text_run(1) obtain ne where ne: "nodeExecutions (execution s) ''T'' = Some ne"
      "ne_status ne = Success"
      by (auto simp: nodeStatus_def)
    note main = plain_result_recorded_not_published[OF s ne]
    from main obtain cs result where p: "ranAs exampleBlocks wf_text s ''T'' cs result"
      by blast
    note c = wf_text_ranAs[OF p]
    from main p o c have
      "ne_outputs ne = Some ((writes cs Map.empty)(''value'' \<mapsto> result))"
      "slotOf (nodeOutputs s) ''T'' = writes cs Map.empty"
      "readOutput ''T'' ''value'' s = (case writes cs Map.empty ''value'' of None \<Rightarrow> JUndefined | Some v \<Rightarrow> v)"
      by auto
    with c have "ne_outputs ne = Some [''value'' \<mapsto> JStr ''hello'']"
      "slotOf (nodeOutputs s) ''T'' = Map.empty" "readOutput ''T'' ''value'' s = JUndefined"
      by simp_all
    with s ne o p c show ?thesis by simp
  qed
  have 2: "\<exists>s ne. runWorkflow exampleBlocks wf_guard Map.empty exampleClock = Resolved s
      \<and> nodeExecutions (execution s) ''G'' = Some ne \<and> ne_status ne = Success
      \<and> ranAs exampleBlocks wf_guard s ''G'' [] (JStr ''hello'')
      \<and> ne_outputs ne = Some [''value'' \<mapsto> JStr ''hello'']
      \<and> slotOf (nodeOutputs s) ''G'' = Map.empty
      \<and> readOutput ''G'' ''value'' s = JUndefined"
  proof -
    obtain s where s: "runWorkflow exampleBlocks wf_guard Map.empty exampleClock = Resolved s"
      using runWorkflow_resolves[of wf_guard exampleBlocks Map.empty exampleClock]
        runLoop_not_Hung[OF settling_exampleBlocks] by blast
    with wf_guard_run(1) obtain ne where ne: "nodeExecutions (execution s) ''G'' = Some ne"
      "ne_status ne = Success"
      by (auto simp: nodeStatus_def)
    from s wf_guard_run(2) have r: "map ctx_aborted (invocationsOf s ''G'') = [False]"
      by simp
    note main = plain_result_recorded_not_published[OF s ne]
    from main obtain cs result where p: "ranAs exampleBlocks wf_guard s ''G'' cs result"
      by blast
    note c = wf_guard_ranAs[OF p r]
    from main p o c have
      "ne_outputs ne = Some ((writes cs Map.empty)(''value'' \<mapsto> result))"
      "slotOf (nodeOutputs s) ''G'' = writes cs Map.empty"
      "readOutput ''G'' ''value'' s = (case writes cs Map.empty ''value'' of None \<Rightarrow> JUndefined | Some v \<Rightarrow> v)"
      by auto
    with c have "ne_outputs ne = Some [''value'' \<mapsto> JStr ''hello'']"
      "slotOf (nodeOutputs s) ''G'' = Map.empty" "readOutput ''G'' ''value'' s = JUndefined"
      by simp_all
    with s ne p c show ?thesis by simp
  qed
  from 1 2 show ?thesis by blast
qed

text \<open>
  Claim C7 as stated fails in its last part. The node \<open>T\<close> returns the string
  \<open>hello\<close> and succeeds; its recorded outputs hold it under \<open>value\<close>, but the
  registry does not: \<^verbatim>\<open>getNodeOutput('T', 'value')\<close> is \<^verbatim>\<open>undefined\<close> at the end
  of the run, and the later node \<open>R\<close>, which returns what that call gives it,
  records \<^verbatim>\<open>undefined\<close>.
\<close>

theorem plain_result_not_readable_counterexample:
  "map_promise (nodeStatus ''T'') (runWorkflow exampleBlocks wf_text Map.empty exampleClock) = Resolved (Some Success)
   \<and> map_promise (recordedOutput ''T'' ''value'') (runWorkflow exampleBlocks wf_text Map.empty exampleClock)
       = Resolved (Some (JStr ''hello''))
   \<and> map_promise (readOutput ''T'' ''value'') (runWorkflow exampleBlocks wf_text Map.empty exampleClock)
       = Resolved JUndefined
   \<and> map_promise (recordedOutput ''R'' ''got'') (runWorkflow exampleBlocks wf_text Map.empty exampleClock)
       = Resolved (Some JUndefined)"
  by (simp add: wf_text_run)

subsection \<open>Claim C8\<close>




subsection \<open>Claim C9\<close>




subsection \<open>Claim C10\<close>

text \<open>
  Claim C10. The loop is a total function: its termination is proved with the
  definition of \<open>runLoop\<close>, for every graph, cyclic or not, and every queue. In the
  state in which the body of \<^verbatim>\<open>executeWorkflow\<close> ends (or stays, when a behaviour
  never settles) the identifiers of the nodes that were started are pairwise distinct
  identifiers of nodes of the workflow: \<^verbatim>\<open>executeNode\<close> reports a node
  \<open>Running\<close> once per call and invokes the behaviour at most once per call. When
  every behaviour settles, the run resolves with these notifications.
\<close>

theorem loop_terminates_each_node_once:
  "distinct (started (notified (snd (tryBody g w env (initialState w clk)))))
   \<and> set (started (notified (snd (tryBody g w env (initialState w clk))))) \<subseteq> node_id ` set (nodes w)
   \<and> (settling g \<longrightarrow>
        (\<exists>s. runWorkflow g w env clk = Resolved s
           \<and> notified s = notified (snd (tryBody g w env (initialState w clk)))))"
proof -
  have "distinct (started (notified (snd (tryBody g w env (initialState w clk)))))
      \<and> set (started (notified (snd (tryBody g w env (initialState w clk))))) \<subseteq> node_id ` set (nodes w)"
    using runLoop_started_once[of "initialState w clk" "{}" w g env "[starterId w]"]
    by (simp add: tryBody_notified)
  moreover have "\<exists>s. runWorkflow g w env clk = Resolved s
           \<and> notified s = notified (snd (tryBody g w env (initialState w clk)))" if "settling g"
    using runWorkflow_resolves[of w g env clk] runLoop_not_Hung[OF that] runWorkflow_notified[of g w env clk]
    by blast
  ultimately show ?thesis by blast
qed

theorem loop_terminates_each_node_once_witness:
  "settling exampleBlocks
   \<and> distinct (started (notified (snd (tryBody exampleBlocks wf_cycle Map.empty (initialState wf_cycle exampleClock)))))
   \<and> map_promise startedNodes (runWorkflow exampleBlocks wf_cycle Map.empty exampleClock) = Resolved [''A'', ''B'']
   \<and> map_promise startedNodes (runWorkflow exampleBlocks wf_join Map.empty exampleClock)
        = Resolved [''S'', ''A'', ''C'', ''B'']"
proof -
  have e: "map_promise startedNodes (runWorkflow exampleBlocks wf_cycle Map.empty exampleClock) = Resolved [''A'', ''B'']"
    "map_promise startedNodes (runWorkflow exampleBlocks wf_join Map.empty exampleClock)
        = Resolved [''S'', ''A'', ''C'', ''B'']"
    by code_simp+
  from loop_terminates_each_node_once[of exampleBlocks wf_cycle Map.empty exampleClock] e
    settling_exampleBlocks
  show ?thesis by simp
qed

end
